theory Spec2Isabelle
  imports Main
begin

section \<open>Host language: strings, whitespace, the integer and float parsers\<close>

text \<open>
  The program is one Python file, \<^verbatim>\<open>src/main.py\<close>. Its type inference calls the
  built-ins \<^verbatim>\<open>int(str)\<close> and \<^verbatim>\<open>float(str)\<close> and decides on whether they raise
  \<^verbatim>\<open>ValueError\<close>; its ingestion calls \<^verbatim>\<open>str.strip()\<close>. These three are modelled
  here after CPython 3.11. In this first model a Python string is a \<^typ>\<open>string\<close> each of
  whose characters is one code point below 256. The program reads its file as UTF-8
  (line 41), so a cell can hold any code point: the type inferrer and \<^verbatim>\<open>strip\<close> are
  modelled a second time further down, on lists of arbitrary code points, and the two
  models are shown to agree on the code points below 256.
\<close>

definition codigo :: "char \<Rightarrow> nat" where
  "codigo c = of_char c"

text \<open>\<^verbatim>\<open>str.isspace\<close> on one code point below 256: what \<^verbatim>\<open>str.strip()\<close> removes.\<close>

definition py_isspace :: "char \<Rightarrow> bool" where
  "py_isspace c = ((9 \<le> codigo c \<and> codigo c \<le> 13) \<or> (28 \<le> codigo c \<and> codigo c \<le> 32)
                    \<or> codigo c = 133 \<or> codigo c = 160)"

text \<open>The C macro \<^verbatim>\<open>Py_ISSPACE\<close>: what the two parsers skip at both ends.\<close>

definition c_isspace :: "char \<Rightarrow> bool" where
  "c_isspace c = ((9 \<le> codigo c \<and> codigo c \<le> 13) \<or> codigo c = 32)"

definition is_digit :: "char \<Rightarrow> bool" where
  "is_digit c = (48 \<le> codigo c \<and> codigo c \<le> 57)"

text \<open>\<^verbatim>\<open>Py_TOLOWER\<close> and the upper-casing of an ASCII letter.\<close>

definition py_tolower :: "char \<Rightarrow> char" where
  "py_tolower c = (if 65 \<le> codigo c \<and> codigo c \<le> 90 then char_of (codigo c + 32) else c)"

definition py_toupper :: "char \<Rightarrow> char" where
  "py_toupper c = (if 97 \<le> codigo c \<and> codigo c \<le> 122 then char_of (codigo c - 32) else c)"

text \<open>\<^verbatim>\<open>valor.strip()\<close>: whitespace removed at both ends.\<close>

definition strip :: "string \<Rightarrow> string" where
  "strip s = rev (dropWhile py_isspace (rev (dropWhile py_isspace s)))"

text \<open>
  \<^verbatim>\<open>_PyUnicode_TransformDecimalAndSpaceToASCII\<close>: an all-ASCII string is passed on as
  it is; otherwise a code point below 127 is kept, a whitespace becomes a blank, and the
  first other one becomes a question mark that ends the buffer (below 256 no code point
  from 127 on is a decimal digit).
\<close>

fun transformar :: "string \<Rightarrow> string" where
  "transformar [] = []"
| "transformar (c # cs) =
     (if codigo c < 127 then c # transformar cs
      else if py_isspace c then CHR '' '' # transformar cs
      else ''?'')"

definition para_ascii :: "string \<Rightarrow> string" where
  "para_ascii s = (if list_all (\<lambda>c. codigo c < 128) s then s else transformar s)"

definition sem_sinal :: "string \<Rightarrow> string" where
  "sem_sinal s = (case s of [] \<Rightarrow> [] | c # r \<Rightarrow> if c = CHR ''+'' \<or> c = CHR ''-'' then r else s)"

subsection \<open>\<^verbatim>\<open>int(str)\<close> in base 10\<close>

text \<open>
  The scanning loop of \<^verbatim>\<open>long_from_string_base\<close>: it walks over digits and
  underscores, remembers the previous character, counts the digits, and stops with an
  error at a doubled underscore. The result is the digit count, the last character
  walked over and the text not consumed.
\<close>

fun varrer :: "char \<Rightarrow> nat \<Rightarrow> string \<Rightarrow> (nat \<times> char \<times> string) option" where
  "varrer prev digits [] = Some (digits, prev, [])"
| "varrer prev digits (c # cs) =
     (if c = CHR ''_'' then (if prev = CHR ''_'' then None else varrer c digits cs)
      else if is_digit c then varrer c (Suc digits) cs
      else Some (digits, prev, c # cs))"

text \<open>
  The limit on the digits of an integer string (\<^verbatim>\<open>sys.get_int_max_str_digits()\<close>,
  4300 unless configured, 0 when switched off or absent from the interpreter) is a
  parameter \<open>lim\<close>; it is looked at only beyond 640 digits.
\<close>

definition excede_limite :: "int \<Rightarrow> nat \<Rightarrow> bool" where
  "excede_limite lim digits = (640 < int digits \<and> 0 < lim \<and> lim < int digits)"

text \<open>
  \<^verbatim>\<open>int(valor)\<close> returns (True) or raises \<^verbatim>\<open>ValueError\<close> (False), in two steps
  as in CPython.
\<close>

text \<open>
  \<^verbatim>\<open>long_from_string_base\<close> on the text after the sign: no underscore in front, the
  scan, no underscore at its end, at least one character consumed, nothing but blanks
  after it, and the limit on the digits.
\<close>

definition long_from_string_base :: "int \<Rightarrow> string \<Rightarrow> bool" where
  "long_from_string_base lim str =
     (case str of
        [] \<Rightarrow> False
      | c # _ \<Rightarrow>
          if c = CHR ''_'' then False
          else (case varrer (CHR 0x00) 0 str of
                  None \<Rightarrow> False
                | Some (digits, prev, resto) \<Rightarrow>
                    if prev = CHR ''_'' then False
                    else if resto = str then False
                    else if dropWhile c_isspace resto \<noteq> [] then False
                    else \<not> excede_limite lim digits))"

text \<open>
  \<^verbatim>\<open>PyLong_FromString\<close>: blanks and one sign are skipped in front of the digits.
\<close>

definition py_int_ok :: "int \<Rightarrow> string \<Rightarrow> bool" where
  "py_int_ok lim valor =
     long_from_string_base lim (sem_sinal (dropWhile c_isspace (para_ascii valor)))"

subsection \<open>\<^verbatim>\<open>float(str)\<close>\<close>

text \<open>
  \<^verbatim>\<open>_Py_string_to_number_with_underscores\<close>: an underscore must stand between two
  digits and is removed before the number is parsed.
\<close>

fun tirar_sublinhados :: "char \<Rightarrow> string \<Rightarrow> string option" where
  "tirar_sublinhados prev [] = (if prev = CHR ''_'' then None else Some [])"
| "tirar_sublinhados prev (c # cs) =
     (if c = CHR ''_'' then (if is_digit prev then tirar_sublinhados c cs else None)
      else if prev = CHR ''_'' \<and> \<not> is_digit c then None
      else map_option (Cons c) (tirar_sublinhados c cs))"

definition com_sublinhados :: "string \<Rightarrow> string option" where
  "com_sublinhados s = (if CHR ''_'' \<in> set s then tirar_sublinhados (CHR 0x00) s else Some s)"

definition e_zero :: "char \<Rightarrow> bool" where
  "e_zero c = (c = CHR ''0'')"

text \<open>
  The exponent part of \<^verbatim>\<open>_Py_dg_strtod\<close>: an \<open>e\<close> with an optional sign and at least
  one digit is consumed, anything else leaves the text where the \<open>e\<close> stands.
\<close>

definition expoente :: "string \<Rightarrow> string" where
  "expoente s =
     (case s of
        [] \<Rightarrow> []
      | c # r \<Rightarrow>
          if c = CHR ''e'' \<or> c = CHR ''E'' then
            (let r1 = sem_sinal r;
                 r2 = dropWhile e_zero r1;
                 lz = (r2 \<noteq> r1);
                 r3 = dropWhile is_digit r2
             in if r3 = r2 \<and> \<not> lz then s else r3)
          else s)"

definition MAX_DIGITS :: int where
  "MAX_DIGITS = 1000000000"

text \<open>
  \<^verbatim>\<open>_Py_dg_strtod\<close>, as far as it decides what is consumed: the text left after the
  longest decimal number at the start, or None when there is none (the C function then
  reports the start of the string as its end).
\<close>

definition strtod :: "string \<Rightarrow> string option" where
  "strtod s00 =
     (let s = sem_sinal s00;
          s1 = dropWhile e_zero s;
          lz = (s1 \<noteq> s);
          s2 = dropWhile is_digit s1;
          ndigits = length (takeWhile is_digit s1)
      in case s2 of
           c # r \<Rightarrow>
             if c = CHR ''.'' then
               (let r0 = (if ndigits = 0 then dropWhile e_zero r else r);
                    lz' = (lz \<or> (ndigits = 0 \<and> r0 \<noteq> r));
                    fraclen0 = (if ndigits = 0 then length (takeWhile e_zero r) else 0);
                    nfrac = length (takeWhile is_digit r0);
                    s3 = dropWhile is_digit r0
                in if ndigits + nfrac = 0 \<and> \<not> lz' then None
                   else if MAX_DIGITS < int (ndigits + nfrac) \<or> MAX_DIGITS < int (fraclen0 + nfrac)
                   then None
                   else Some (expoente s3))
             else if ndigits = 0 \<and> \<not> lz then None
             else if MAX_DIGITS < int ndigits then None
             else Some (expoente s2)
         | [] \<Rightarrow>
             if ndigits = 0 \<and> \<not> lz then None
             else if MAX_DIGITS < int ndigits then None
             else Some [])"

definition case_insensitive_match :: "string \<Rightarrow> string \<Rightarrow> bool" where
  "case_insensitive_match s t = (map py_tolower (take (length t) s) = t)"

text \<open>\<^verbatim>\<open>_Py_parse_inf_or_nan\<close>: the text left after the keyword, or None.\<close>

definition parse_inf_or_nan :: "string \<Rightarrow> string option" where
  "parse_inf_or_nan p =
     (let s = sem_sinal p
      in if case_insensitive_match s ''inf'' then
           (let s' = drop 3 s
            in if case_insensitive_match s' ''inity'' then Some (drop 5 s') else Some s')
         else if case_insensitive_match s ''nan'' then Some (drop 3 s)
         else None)"

definition ascii_strtod :: "string \<Rightarrow> string option" where
  "ascii_strtod s = (case strtod s of Some r \<Rightarrow> Some r | None \<Rightarrow> parse_inf_or_nan s)"

text \<open>
  \<^verbatim>\<open>float_from_string_inner\<close>: blanks are skipped at both ends and the number must
  reach the end. Overflow is no error (\<^verbatim>\<open>float("1e999")\<close> is \<^verbatim>\<open>inf\<close>).
\<close>

definition float_from_string_inner :: "string \<Rightarrow> bool" where
  "float_from_string_inner s0 =
     (let s = dropWhile c_isspace s0
      in if s = [] then False
         else (let t = rev (dropWhile c_isspace (rev s))
               in ascii_strtod t = Some []))"

text \<open>\<^verbatim>\<open>float(valor)\<close> returns (True) or raises \<^verbatim>\<open>ValueError\<close> (False).\<close>

definition py_float_ok :: "string \<Rightarrow> bool" where
  "py_float_ok valor =
     (case com_sublinhados (para_ascii valor) of
        None \<Rightarrow> False
      | Some s \<Rightarrow> float_from_string_inner s)"

section \<open>The type inferrer\<close>

text \<open>
  \<^verbatim>\<open>inferir_tipo_dado\<close> (main.py, lines 19 to 36) returns one of the strings
  \<^verbatim>\<open>"vazio"\<close>, \<^verbatim>\<open>"int"\<close>, \<^verbatim>\<open>"float"\<close>, \<^verbatim>\<open>"string"\<close>. It does not trim its
  argument: the caller has done so (line 62).
\<close>

definition inferir_tipo_dado :: "int \<Rightarrow> string \<Rightarrow> string" where
  "inferir_tipo_dado lim valor =
     (if valor = [] then ''vazio''
      else if py_int_ok lim valor then ''int''
      else if py_float_ok valor then ''float''
      else ''string'')"

section \<open>The type inferrer on strings of all code points\<close>

text \<open>
  A string is the list of its code points. Outside ASCII, \<^verbatim>\<open>strip\<close>, \<^verbatim>\<open>int\<close> and
  \<^verbatim>\<open>float\<close> consult two tables of the Unicode database, which are parameters here:
  \<open>esp\<close> says which code points from 128 on are whitespace, and \<open>dec\<close> gives the value
  of those that are decimal digits. What is proved holds for every pair of tables.

  \<^verbatim>\<open>Py_UNICODE_ISSPACE\<close>: a fixed table below 128, the database from 128 on.
\<close>

definition uni_isspace :: "(nat \<Rightarrow> bool) \<Rightarrow> nat \<Rightarrow> bool" where
  "uni_isspace esp ch =
     (if ch < 128 then (9 \<le> ch \<and> ch \<le> 13) \<or> (28 \<le> ch \<and> ch \<le> 32) else esp ch)"

text \<open>\<^verbatim>\<open>Py_UNICODE_TODECIMAL\<close>: the value from 0 to 9 of a decimal digit, or none.\<close>

definition uni_todecimal :: "(nat \<Rightarrow> nat option) \<Rightarrow> nat \<Rightarrow> nat option" where
  "uni_todecimal dec ch =
     (if ch < 128 then (if 48 \<le> ch \<and> ch \<le> 57 then Some (ch - 48) else None)
      else (case dec ch of None \<Rightarrow> None | Some d \<Rightarrow> if d \<le> 9 then Some d else None))"

definition strip_u :: "(nat \<Rightarrow> bool) \<Rightarrow> nat list \<Rightarrow> nat list" where
  "strip_u esp s = rev (dropWhile (uni_isspace esp) (rev (dropWhile (uni_isspace esp) s)))"

text \<open>
  \<^verbatim>\<open>_PyUnicode_TransformDecimalAndSpaceToASCII\<close> with all its branches: a code point
  below 127 is kept, a whitespace becomes a blank, a decimal digit becomes the ASCII
  digit of its value, and the first code point of another kind becomes a question mark
  that ends the buffer. An all-ASCII string is passed on as it is.
\<close>

fun transformar_u :: "(nat \<Rightarrow> bool) \<Rightarrow> (nat \<Rightarrow> nat option) \<Rightarrow> nat list \<Rightarrow> string" where
  "transformar_u esp dec [] = []"
| "transformar_u esp dec (ch # r) =
     (if ch < 127 then char_of ch # transformar_u esp dec r
      else if uni_isspace esp ch then CHR '' '' # transformar_u esp dec r
      else (case uni_todecimal dec ch of
              None \<Rightarrow> ''?''
            | Some d \<Rightarrow> char_of (48 + d) # transformar_u esp dec r))"

definition para_ascii_u :: "(nat \<Rightarrow> bool) \<Rightarrow> (nat \<Rightarrow> nat option) \<Rightarrow> nat list \<Rightarrow> string" where
  "para_ascii_u esp dec s =
     (if list_all (\<lambda>ch. ch < 128) s then map char_of s else transformar_u esp dec s)"

text \<open>The two parsers and the inferrer: as above, on the buffer of the wider transformation.\<close>

definition py_int_ok_u :: "int \<Rightarrow> (nat \<Rightarrow> bool) \<Rightarrow> (nat \<Rightarrow> nat option) \<Rightarrow> nat list \<Rightarrow> bool" where
  "py_int_ok_u lim esp dec valor =
     long_from_string_base lim (sem_sinal (dropWhile c_isspace (para_ascii_u esp dec valor)))"

definition py_float_ok_u :: "(nat \<Rightarrow> bool) \<Rightarrow> (nat \<Rightarrow> nat option) \<Rightarrow> nat list \<Rightarrow> bool" where
  "py_float_ok_u esp dec valor =
     (case com_sublinhados (para_ascii_u esp dec valor) of
        None \<Rightarrow> False
      | Some s \<Rightarrow> float_from_string_inner s)"

definition inferir_tipo_dado_u ::
  "int \<Rightarrow> (nat \<Rightarrow> bool) \<Rightarrow> (nat \<Rightarrow> nat option) \<Rightarrow> nat list \<Rightarrow> string" where
  "inferir_tipo_dado_u lim esp dec valor =
     (if valor = [] then ''vazio''
      else if py_int_ok_u lim esp dec valor then ''int''
      else if py_float_ok_u esp dec valor then ''float''
      else ''string'')"

text \<open>
  An excerpt of the database for examples: the whitespace U+0085, U+00A0, U+2003 and
  U+3000, the Arabic-Indic digits U+0660 to U+0669 and the fullwidth digits U+FF10 to
  U+FF19.
\<close>

definition esp_exemplo :: "nat \<Rightarrow> bool" where
  "esp_exemplo ch = (ch = 133 \<or> ch = 160 \<or> ch = 0x2003 \<or> ch = 0x3000)"

definition dec_exemplo :: "nat \<Rightarrow> nat option" where
  "dec_exemplo ch =
     (if 0x660 \<le> ch \<and> ch \<le> 0x669 then Some (ch - 0x660)
      else if 0xFF10 \<le> ch \<and> ch \<le> 0xFF19 then Some (ch - 0xFF10)
      else None)"

section \<open>Host language: \<^verbatim>\<open>Counter\<close>, \<^verbatim>\<open>most_common\<close>, float percentages\<close>

text \<open>
  A \<^verbatim>\<open>collections.Counter\<close> is a dictionary, and a dictionary keeps its keys in the
  order of their first insertion: it is an association list here. Counting an element
  adds one to its entry, or appends a new entry with count one.
\<close>

fun contar :: "'a \<Rightarrow> ('a \<times> nat) list \<Rightarrow> ('a \<times> nat) list" where
  "contar x [] = [(x, 1)]"
| "contar x ((k, c) # kcs) = (if k = x then (k, Suc c) # kcs else (k, c) # contar x kcs)"

definition Counter :: "'a list \<Rightarrow> ('a \<times> nat) list" where
  "Counter xs = fold contar xs []"

text \<open>
  \<^verbatim>\<open>sorted(items, key=itemgetter(1), reverse=True)\<close>: the list is reversed, sorted
  stably by ascending count, and reversed again, which is how equal counts keep their
  original order.
\<close>

definition sorted_reverse :: "('a \<times> nat) list \<Rightarrow> ('a \<times> nat) list" where
  "sorted_reverse items = rev (sort_key snd (rev items))"

text \<open>\<^verbatim>\<open>max(it, key=itemgetter(1))\<close>: a later item wins only with a strictly larger count.\<close>

fun py_max :: "('a \<times> nat) \<Rightarrow> ('a \<times> nat) list \<Rightarrow> ('a \<times> nat)" where
  "py_max m [] = m"
| "py_max m (x # xs) = (if snd m < snd x then py_max x xs else py_max m xs)"

text \<open>
  \<^verbatim>\<open>Counter.most_common(n)\<close> is \<^verbatim>\<open>heapq.nlargest(n, items, key=itemgetter(1))\<close>:
  \<^verbatim>\<open>max\<close> for \<open>n = 1\<close>, and otherwise the first \<open>n\<close> items of the descending stable
  sort (the heap used for a long input is documented to return the same list).
\<close>

definition most_common :: "nat \<Rightarrow> ('a \<times> nat) list \<Rightarrow> ('a \<times> nat) list" where
  "most_common n items =
     (if n = 1 then (case items of [] \<Rightarrow> [] | x # xs \<Rightarrow> [py_max x xs])
      else take n (sorted_reverse items))"

text \<open>
  The percentage \<^verbatim>\<open>(contagem / len(valores_nao_vazios)) * 100\<close> is computed in
  double precision and printed with \<^verbatim>\<open>:.1f\<close>. A double that is not negative is a
  fraction of two integers here; \<open>binary64\<close> rounds a fraction to the nearest number
  with a significand of 53 bits, ties to even. The exponent is not bounded: the quotient
  of a count by a larger count is at most one, and where the machine would underflow
  both the machine and this model print \<^verbatim>\<open>0.0\<close>.
\<close>

function bitlen :: "int \<Rightarrow> nat" where
  "bitlen a = (if a \<le> 0 then 0 else Suc (bitlen (a div 2)))"
  by pat_completeness auto
termination
  by (relation "measure nat") auto

declare bitlen.simps [simp del]

text \<open>The integer nearest to \<open>a / b\<close>, ties to even.\<close>

definition arredondar :: "int \<Rightarrow> int \<Rightarrow> int" where
  "arredondar a b =
     (let q = a div b; r = a mod b
      in if 2 * r < b then q
         else if b < 2 * r then q + 1
         else if even q then q else q + 1)"

text \<open>The fraction \<open>a / b\<close> times two to the power \<open>sh\<close>.\<close>

definition escalar :: "int \<times> int \<Rightarrow> int \<Rightarrow> int \<times> int" where
  "escalar x sh =
     (if 0 \<le> sh then (fst x * 2 ^ nat sh, snd x) else (fst x, snd x * 2 ^ nat (- sh)))"

definition binary64 :: "int \<times> int \<Rightarrow> int \<times> int" where
  "binary64 x =
     (if fst x \<le> 0 \<or> snd x \<le> 0 then (0, 1)
      else
        (let sh0 = 53 - (int (bitlen (fst x)) - int (bitlen (snd x)));
             y0 = escalar x sh0;
             sh = (if 2 ^ 53 * snd y0 \<le> fst y0 then sh0 - 1 else sh0);
             y = escalar x sh;
             m = arredondar (fst y) (snd y)
         in escalar (m, 1) (- sh)))"

datatype excecao = StopIteration | FileNotFoundError | KeyError | IndexError | ZeroDivisionError

text \<open>The percentage as the number of tenths that \<^verbatim>\<open>:.1f\<close> prints (333 for 33.3).\<close>

definition percentual :: "nat \<Rightarrow> nat \<Rightarrow> excecao + int" where
  "percentual contagem n =
     (if n = 0 then Inl ZeroDivisionError
      else
        (let quociente = binary64 (int contagem, int n);
             produto = binary64 (fst quociente * 100, snd quociente)
         in Inr (arredondar (fst produto * 10) (snd produto))))"

section \<open>Reading the rows: \<^verbatim>\<open>analisar_csv\<close>\<close>

text \<open>
  \<^verbatim>\<open>dados_colunas\<close> is a dictionary from a column name to the list of its trimmed
  cells. The dictionary comprehension of line 52 gives every name of the header the
  empty list; a name that occurs twice is one key.
\<close>

type_synonym dados = "string \<rightharpoonup> string list"

definition inicializar :: "string list \<Rightarrow> dados" where
  "inicializar cabecalho = fold (\<lambda>col d. d(col \<mapsto> [])) cabecalho Map.empty"

text \<open>
  The inner loop (lines 61 and 62) over \<^verbatim>\<open>enumerate(linha)\<close>. An index outside the
  header and a name missing from the dictionary raise, as they do in Python.
\<close>

fun anexar_valores :: "string list \<Rightarrow> (nat \<times> string) list \<Rightarrow> dados \<Rightarrow> excecao + dados" where
  "anexar_valores cabecalho [] d = Inr d"
| "anexar_valores cabecalho ((i, valor) # resto) d =
     (if length cabecalho \<le> i then Inl IndexError
      else (case d (cabecalho ! i) of
              None \<Rightarrow> Inl KeyError
            | Some vs \<Rightarrow> anexar_valores cabecalho resto (d(cabecalho ! i \<mapsto> vs @ [strip valor]))))"

text \<open>
  One turn of the outer loop (lines 56 to 62) on the state
  \<open>(dados_colunas, contagem_linhas)\<close>: the row is counted, and a row whose length is not
  that of the header is skipped.
\<close>

definition processar_linha ::
  "string list \<Rightarrow> nat \<Rightarrow> dados \<times> nat \<Rightarrow> string list \<Rightarrow> excecao + dados \<times> nat" where
  "processar_linha cabecalho num_colunas estado linha =
     (let dados_colunas = fst estado; contagem_linhas = snd estado + 1
      in if length linha \<noteq> num_colunas then Inr (dados_colunas, contagem_linhas)
         else (case anexar_valores cabecalho (enumerate 0 linha) dados_colunas of
                 Inl e \<Rightarrow> Inl e
               | Inr d \<Rightarrow> Inr (d, contagem_linhas)))"

fun processar_linhas ::
  "string list \<Rightarrow> nat \<Rightarrow> dados \<times> nat \<Rightarrow> string list list \<Rightarrow> excecao + dados \<times> nat" where
  "processar_linhas cabecalho num_colunas estado [] = Inr estado"
| "processar_linhas cabecalho num_colunas estado (linha # leitor) =
     (case processar_linha cabecalho num_colunas estado linha of
        Inl e \<Rightarrow> Inl e
      | Inr estado' \<Rightarrow> processar_linhas cabecalho num_colunas estado' leitor)"

text \<open>
  Lines 46 to 62 as one function of the header and the rows after it: the column
  count is the length of the header, every column starts empty, no row is counted yet.
\<close>

definition ingerir :: "string list \<Rightarrow> string list list \<Rightarrow> excecao + dados \<times> nat" where
  "ingerir cabecalho leitor =
     processar_linhas cabecalho (length cabecalho) (inicializar cabecalho, 0) leitor"

text \<open>Two readings of the state after the loop: the cells of one column, the row count.\<close>

definition valores_da_coluna :: "string list \<Rightarrow> string list list \<Rightarrow> string \<Rightarrow> string list option" where
  "valores_da_coluna cabecalho leitor coluna =
     (case ingerir cabecalho leitor of Inl e \<Rightarrow> None | Inr estado \<Rightarrow> fst estado coluna)"

definition linhas_contadas :: "string list \<Rightarrow> string list list \<Rightarrow> nat option" where
  "linhas_contadas cabecalho leitor =
     (case ingerir cabecalho leitor of Inl e \<Rightarrow> None | Inr estado \<Rightarrow> Some (snd estado))"

section \<open>The report: \<^verbatim>\<open>imprimir_relatorio\<close>\<close>

text \<open>
  What the function prints is kept as data: for each name of the header, in order,
  either the notice that all values are empty or the figures of lines 95 to 113.
\<close>

record estatisticas =
  nao_vazios :: nat
  total_valores :: nat
  valores_vazios :: int
  contagem_unicos :: nat
  tipo_predominante :: string
  mais_comuns :: "(string \<times> nat \<times> int) list"

datatype bloco = TodosVazios | Estatisticas estatisticas

record relatorio =
  arquivo :: string
  linhas_de_dados :: nat
  total_de_colunas :: nat
  colunas :: "(string \<times> bloco) list"

definition valores_nao_vazios :: "string list \<Rightarrow> string list" where
  "valores_nao_vazios valores_coluna = filter (\<lambda>v. v \<noteq> []) valores_coluna"

text \<open>The loop of lines 111 to 113: value, count and percentage of each entry.\<close>

fun linhas_mais_comuns :: "nat \<Rightarrow> (string \<times> nat) list \<Rightarrow> excecao + (string \<times> nat \<times> int) list" where
  "linhas_mais_comuns n [] = Inr []"
| "linhas_mais_comuns n ((valor, contagem) # resto) =
     (case percentual contagem n of
        Inl e \<Rightarrow> Inl e
      | Inr p \<Rightarrow> (case linhas_mais_comuns n resto of
                    Inl e \<Rightarrow> Inl e
                  | Inr ls \<Rightarrow> Inr ((valor, contagem, p) # ls)))"

text \<open>
  Line 104: the tally of the inferred types of the non-empty values. Line 105:
  \<^verbatim>\<open>most_common(1)[0][0]\<close>, where the index raises on an empty list.
\<close>

definition tipos_inferidos :: "int \<Rightarrow> string list \<Rightarrow> (string \<times> nat) list" where
  "tipos_inferidos lim nv = Counter (map (inferir_tipo_dado lim) nv)"

definition predominante :: "(string \<times> nat) list \<Rightarrow> excecao + string" where
  "predominante tipos =
     (case most_common 1 tipos of [] \<Rightarrow> Inl IndexError | primeiro # _ \<Rightarrow> Inr (fst primeiro))"

text \<open>The body of the loop over the header (lines 87 to 114) for one column.\<close>

definition bloco_coluna :: "int \<Rightarrow> dados \<Rightarrow> string \<Rightarrow> excecao + bloco" where
  "bloco_coluna lim dados coluna =
     (case dados coluna of
        None \<Rightarrow> Inl KeyError
      | Some valores_coluna \<Rightarrow>
          (let nv = valores_nao_vazios valores_coluna
           in if nv = [] then Inr TodosVazios
              else
                (case predominante (tipos_inferidos lim nv) of
                   Inl e \<Rightarrow> Inl e
                 | Inr tipo \<Rightarrow>
                     (case linhas_mais_comuns (length nv) (most_common 5 (Counter nv)) of
                        Inl e \<Rightarrow> Inl e
                      | Inr ls \<Rightarrow>
                          Inr (Estatisticas
                                 \<lparr>nao_vazios = length nv,
                                  total_valores = length valores_coluna,
                                  valores_vazios = int (length valores_coluna) - int (length nv),
                                  contagem_unicos = card (set nv),
                                  tipo_predominante = map py_toupper tipo,
                                  mais_comuns = ls\<rparr>)))))"

fun blocos :: "int \<Rightarrow> dados \<Rightarrow> string list \<Rightarrow> excecao + (string \<times> bloco) list" where
  "blocos lim dados [] = Inr []"
| "blocos lim dados (coluna # resto) =
     (case bloco_coluna lim dados coluna of
        Inl e \<Rightarrow> Inl e
      | Inr b \<Rightarrow> (case blocos lim dados resto of
                    Inl e \<Rightarrow> Inl e
                  | Inr bs \<Rightarrow> Inr ((coluna, b) # bs)))"

text \<open>\<^verbatim>\<open>os.path.basename\<close>: what follows the last slash.\<close>

definition basename :: "string \<Rightarrow> string" where
  "basename p = rev (takeWhile (\<lambda>c. c \<noteq> CHR ''/'') (rev p))"

definition imprimir_relatorio ::
  "int \<Rightarrow> string \<Rightarrow> nat \<Rightarrow> string list \<Rightarrow> dados \<Rightarrow> excecao + relatorio" where
  "imprimir_relatorio lim nome_arquivo total_linhas cabecalho dados =
     (case blocos lim dados cabecalho of
        Inl e \<Rightarrow> Inl e
      | Inr bs \<Rightarrow>
          Inr \<lparr>arquivo = basename nome_arquivo, linhas_de_dados = total_linhas,
               total_de_colunas = length cabecalho, colunas = bs\<rparr>)"

section \<open>The whole run\<close>

text \<open>
  What \<^verbatim>\<open>analisar_csv\<close> has printed when it returns: one of its three error
  messages, or the report. The file is given as the rows that \<^verbatim>\<open>csv.reader\<close> yields
  for it, or None when there is no file at the path.
\<close>

datatype saida =
    ErroArquivoVazio string
  | ErroNaoEncontrado string
  | ErroInesperado excecao
  | Impresso relatorio

definition abrir :: "string list list option \<Rightarrow> excecao + string list list" where
  "abrir conteudo =
     (case conteudo of None \<Rightarrow> Inl FileNotFoundError | Some linhas \<Rightarrow> Inr linhas)"

text \<open>\<^verbatim>\<open>next(leitor)\<close>: the first row and the rest, or \<^verbatim>\<open>StopIteration\<close>.\<close>

definition proximo :: "'a list \<Rightarrow> excecao + 'a \<times> 'a list" where
  "proximo leitor = (case leitor of [] \<Rightarrow> Inl StopIteration | x # xs \<Rightarrow> Inr (x, xs))"

text \<open>
  The body of the \<^verbatim>\<open>with\<close> block (lines 42 to 65). Inl is an exception that leaves
  the block; the inner \<^verbatim>\<open>try\<close> of lines 44 to 49 turns \<^verbatim>\<open>StopIteration\<close> into a
  message and a plain return.
\<close>

definition corpo :: "int \<Rightarrow> string \<Rightarrow> string list list \<Rightarrow> excecao + saida" where
  "corpo lim caminho leitor0 =
     (case proximo leitor0 of
        Inl e \<Rightarrow> (if e = StopIteration then Inr (ErroArquivoVazio caminho) else Inl e)
      | Inr (cabecalho, leitor) \<Rightarrow>
          (case ingerir cabecalho leitor of
             Inl e \<Rightarrow> Inl e
           | Inr (dados_colunas, contagem_linhas) \<Rightarrow>
               (case imprimir_relatorio lim caminho contagem_linhas cabecalho dados_colunas of
                  Inl e \<Rightarrow> Inl e
                | Inr r \<Rightarrow> Inr (Impresso r))))"

text \<open>
  The two handlers of lines 67 to 70 catch every exception. The result is Inl for an
  exception that reaches the caller and Inr for a return to the caller, with what was
  printed.
\<close>

definition tratar :: "string \<Rightarrow> excecao \<Rightarrow> excecao + saida" where
  "tratar caminho e =
     (if e = FileNotFoundError then Inr (ErroNaoEncontrado caminho) else Inr (ErroInesperado e))"

definition analisar_csv :: "int \<Rightarrow> string \<Rightarrow> string list list option \<Rightarrow> excecao + saida" where
  "analisar_csv lim caminho conteudo =
     (case abrir conteudo of
        Inl e \<Rightarrow> tratar caminho e
      | Inr leitor \<Rightarrow>
          (case corpo lim caminho leitor of
             Inl e \<Rightarrow> tratar caminho e
           | Inr s \<Rightarrow> Inr s))"


section \<open>Notions of the specification\<close>

text \<open>
  The position at which a value first occurs in a list (the length of the list for a
  value that does not occur): the first-occurrence order of the specification.
\<close>

definition primeira_ocorrencia :: "'a list \<Rightarrow> 'a \<Rightarrow> nat" where
  "primeira_ocorrencia xs v = length (takeWhile (\<lambda>x. x \<noteq> v) xs)"

text \<open>
  The ranking of the specification's top-N: by descending count, and among equal
  counts by ascending first occurrence in the list \<open>xs\<close> that was counted.
\<close>

definition ordem_top :: "'a list \<Rightarrow> 'a \<times> nat \<Rightarrow> 'a \<times> nat \<Rightarrow> bool" where
  "ordem_top xs a b =
     (snd b < snd a \<or>
      (snd a = snd b \<and> primeira_ocorrencia xs (fst a) < primeira_ocorrencia xs (fst b)))"

text \<open>
  The tie-break of the specification for the predominant type: the first type, in the
  fixed order empty, integer, float, text, whose tally no type of that order exceeds.
\<close>

definition precedencia :: "string list" where
  "precedencia = [''vazio'', ''int'', ''float'', ''string'']"

definition predominante_por_precedencia :: "string list \<Rightarrow> string option" where
  "predominante_por_precedencia tipos =
     List.find (\<lambda>t. list_all (\<lambda>u. count_list tipos u \<le> count_list tipos t) precedencia)
       precedencia"

text \<open>An ASCII letter, of either case.\<close>

definition letra :: "char \<Rightarrow> bool" where
  "letra c = ((65 \<le> codigo c \<and> codigo c \<le> 90) \<or> (97 \<le> codigo c \<and> codigo c \<le> 122))"

text \<open>
  The cells that the rows hold for a column name: a row of the length of the header
  gives, in order, the trimmed cells at the positions where the header has that name;
  the rows are taken in order and a row of another length gives nothing.
\<close>

definition celulas_da_linha :: "string list \<Rightarrow> string \<Rightarrow> string list \<Rightarrow> string list" where
  "celulas_da_linha cabecalho coluna linha =
     map (\<lambda>p. strip (snd p)) (filter (\<lambda>p. fst p = coluna) (zip cabecalho linha))"

definition linhas_bem_formadas :: "string list \<Rightarrow> string list list \<Rightarrow> string list list" where
  "linhas_bem_formadas cabecalho leitor = filter (\<lambda>linha. length linha = length cabecalho) leitor"

definition celulas :: "string list \<Rightarrow> string list list \<Rightarrow> string \<Rightarrow> string list" where
  "celulas cabecalho leitor coluna =
     concat (map (celulas_da_linha cabecalho coluna) (linhas_bem_formadas cabecalho leitor))"

text \<open>
  The shape that claim C7 gives to an integer: an optional sign in front, then digits
  only, and at least one.
\<close>

definition so_digitos :: "string \<Rightarrow> bool" where
  "so_digitos s = (sem_sinal s \<noteq> [] \<and> list_all is_digit (sem_sinal s))"

text \<open>
  The shape that Python's \<^verbatim>\<open>int\<close> accepts, on a string of the first model and on the
  ASCII buffer that the parser scans: an optional sign in front, then one or more groups
  of digits, none of them empty, with one underscore between two groups. \<open>dividir\<close>
  cuts a list at every occurrence of the separator.
\<close>

fun dividir :: "'a \<Rightarrow> 'a list \<Rightarrow> 'a list list" where
  "dividir sep [] = [[]]"
| "dividir sep (c # cs) =
     (if c = sep then [] # dividir sep cs
      else (case dividir sep cs of [] \<Rightarrow> [[c]] | g # gs \<Rightarrow> (c # g) # gs))"

definition grupo_de_digitos :: "string \<Rightarrow> bool" where
  "grupo_de_digitos g = (g \<noteq> [] \<and> list_all is_digit g)"

definition literal_inteiro :: "string \<Rightarrow> bool" where
  "literal_inteiro s = list_all grupo_de_digitos (dividir (CHR ''_'') (sem_sinal s))"

definition numero_de_digitos :: "string \<Rightarrow> nat" where
  "numero_de_digitos s = length (filter is_digit s)"

text \<open>
  The groups of a text that follows a digit (\<open>b\<close> true: the first group may be empty,
  it continues the one before) or an underscore (\<open>b\<close> false).
\<close>

definition grupos_apos :: "bool \<Rightarrow> string \<Rightarrow> bool" where
  "grupos_apos b u =
     (case dividir (CHR ''_'') u of
        [] \<Rightarrow> False
      | g # gs \<Rightarrow> (b \<or> g \<noteq> []) \<and> list_all is_digit g \<and> list_all grupo_de_digitos gs)"

text \<open>A result of the scan that makes \<^verbatim>\<open>int\<close> accept: all consumed, no underscore last.\<close>

definition aceita :: "int \<Rightarrow> (nat \<times> char \<times> string) option \<Rightarrow> bool" where
  "aceita lim r =
     (case r of
        None \<Rightarrow> False
      | Some (digits, prev, resto) \<Rightarrow>
          resto = [] \<and> prev \<noteq> CHR ''_'' \<and> \<not> excede_limite lim digits)"

text \<open>
  The shape of an integer on strings of all code points: a decimal digit is an ASCII
  digit or a code point from 128 on to which the database gives a decimal value (and
  which it does not list as whitespace); a sign is \<^verbatim>\<open>+\<close> (43) or \<^verbatim>\<open>-\<close> (45) and the
  separator is the underscore (95).
\<close>

definition digito_decimal :: "(nat \<Rightarrow> bool) \<Rightarrow> (nat \<Rightarrow> nat option) \<Rightarrow> nat \<Rightarrow> bool" where
  "digito_decimal esp dec ch =
     ((48 \<le> ch \<and> ch \<le> 57) \<or>
      (128 \<le> ch \<and> \<not> esp ch \<and> (case dec ch of None \<Rightarrow> False | Some d \<Rightarrow> d \<le> 9)))"

definition sem_sinal_u :: "nat list \<Rightarrow> nat list" where
  "sem_sinal_u s = (case s of [] \<Rightarrow> [] | ch # r \<Rightarrow> if ch = 43 \<or> ch = 45 then r else s)"

definition grupo_decimal :: "(nat \<Rightarrow> bool) \<Rightarrow> (nat \<Rightarrow> nat option) \<Rightarrow> nat list \<Rightarrow> bool" where
  "grupo_decimal esp dec g = (g \<noteq> [] \<and> list_all (digito_decimal esp dec) g)"

definition literal_inteiro_u :: "(nat \<Rightarrow> bool) \<Rightarrow> (nat \<Rightarrow> nat option) \<Rightarrow> nat list \<Rightarrow> bool" where
  "literal_inteiro_u esp dec s = list_all (grupo_decimal esp dec) (dividir 95 (sem_sinal_u s))"

definition numero_de_digitos_u :: "(nat \<Rightarrow> bool) \<Rightarrow> (nat \<Rightarrow> nat option) \<Rightarrow> nat list \<Rightarrow> nat" where
  "numero_de_digitos_u esp dec s = length (filter (digito_decimal esp dec) s)"

text \<open>
  For the proofs: the character that the transformation writes for one code point when
  it does not stop, and the code points at which it does not stop.
\<close>

definition traduz :: "(nat \<Rightarrow> bool) \<Rightarrow> (nat \<Rightarrow> nat option) \<Rightarrow> nat \<Rightarrow> char" where
  "traduz esp dec ch =
     (if ch < 128 then char_of ch
      else if esp ch then CHR '' ''
      else (case uni_todecimal dec ch of None \<Rightarrow> CHR ''?'' | Some d \<Rightarrow> char_of (48 + d)))"

definition boa :: "(nat \<Rightarrow> bool) \<Rightarrow> (nat \<Rightarrow> nat option) \<Rightarrow> nat \<Rightarrow> bool" where
  "boa esp dec ch = (ch < 127 \<or> (128 \<le> ch \<and> (esp ch \<or> uni_todecimal dec ch \<noteq> None)))"

section \<open>Type inference on the inputs of the specification\<close>

lemmas analise_defs = inferir_tipo_dado_def py_int_ok_def long_from_string_base_def
  py_float_ok_def para_ascii_def
  sem_sinal_def c_isspace_def py_isspace_def codigo_def is_digit_def excede_limite_def
  com_sublinhados_def float_from_string_inner_def ascii_strtod_def strtod_def expoente_def
  parse_inf_or_nan_def case_insensitive_match_def e_zero_def MAX_DIGITS_def strip_def

lemma inferir_42: "inferir_tipo_dado lim ''42'' = ''int''"
  by (simp add: analise_defs)

lemma inferir_42_ponto_0: "inferir_tipo_dado lim ''42.0'' = ''float''"
  by (simp add: analise_defs)

lemma inferir_42abc: "inferir_tipo_dado lim ''42abc'' = ''string''"
  by (simp add: analise_defs)

lemma inferir_vazio: "inferir_tipo_dado lim '''' = ''vazio''"
  by (simp add: inferir_tipo_dado_def)

lemma strip_brancos: "strip ''   '' = ''''"
  by (simp add: strip_def py_isspace_def codigo_def)

text \<open>
  The function itself does not trim: three blanks handed to it as they are, are neither
  an integer nor a float. In the program every cell is trimmed before it is stored.
\<close>

lemma inferir_brancos_sem_strip: "inferir_tipo_dado lim ''   '' = ''string''"
  by (simp add: analise_defs)

text \<open>
  Claim C2. On the inputs of the specification the inferrer answers: \<^verbatim>\<open>"42"\<close> is an
  integer, \<^verbatim>\<open>"42.0"\<close> a float, \<^verbatim>\<open>"42abc"\<close> a text, the empty string is empty, and a
  string of three blanks is empty after trimming (\<^verbatim>\<open>strip\<close> turns it into the empty
  string, on which the inferrer answers empty).
\<close>

theorem inferir_tipo_dado_precedencia:
  "inferir_tipo_dado lim ''42'' = ''int'' \<and>
   inferir_tipo_dado lim ''42.0'' = ''float'' \<and>
   inferir_tipo_dado lim ''42abc'' = ''string'' \<and>
   inferir_tipo_dado lim '''' = ''vazio'' \<and>
   strip ''   '' = '''' \<and>
   inferir_tipo_dado lim (strip ''   '') = ''vazio''"
  using inferir_42 inferir_42_ponto_0 inferir_42abc inferir_vazio strip_brancos by simp

section \<open>A source without rows\<close>

text \<open>
  The specification's reading of claim C5: an exception reaches the caller. In the model
  that is a result Inl.
\<close>

theorem sem_linhas_nao_levanta:
  "analisar_csv 4300 ''dados.csv'' (Some []) = Inr (ErroArquivoVazio ''dados.csv'') \<and>
   \<not> isl (analisar_csv 4300 ''dados.csv'' (Some []))"
  by (simp add: analisar_csv_def abrir_def corpo_def proximo_def)

text \<open>
  Claim C5, amended. If the row source yields no rows at all, \<^verbatim>\<open>analisar_csv\<close>
  prints its own message for a file that is empty or has no header (not the message of
  the handler for unexpected exceptions) and returns to the caller; no exception is
  raised, and no report is printed.
\<close>

theorem sem_linhas_mensagem:
  "analisar_csv lim caminho (Some []) = Inr (ErroArquivoVazio caminho)"
  by (simp add: analisar_csv_def abrir_def corpo_def proximo_def)

section \<open>Columns without a value, rows of the wrong length\<close>

lemmas ingestao_defs = valores_da_coluna_def linhas_contadas_def ingerir_def processar_linha_def
  inicializar_def enumerate_eq_zip strip_def py_isspace_def codigo_def

lemmas execucao_defs = analisar_csv_def abrir_def corpo_def proximo_def imprimir_relatorio_def
  bloco_coluna_def valores_nao_vazios_def

lemma bloco_todos_vazios:
  "dados coluna = Some valores_coluna \<Longrightarrow> valores_nao_vazios valores_coluna = [] \<Longrightarrow>
   bloco_coluna lim dados coluna = Inr TodosVazios"
  by (simp add: bloco_coluna_def)

lemma coluna_z_valores: "valores_da_coluna [''z''] [[''''], ['''']] ''z'' = Some ['''', '''']"
  by (simp add: ingestao_defs)

lemma coluna_z_relatorio:
  "analisar_csv lim caminho (Some [[''z''], [''''], ['''']]) =
     Inr (Impresso \<lparr>arquivo = basename caminho, linhas_de_dados = 2, total_de_colunas = 1,
                     colunas = [(''z'', TodosVazios)]\<rparr>)"
  by (simp add: execucao_defs ingestao_defs)

text \<open>
  Claim C8. A column none of whose stored values is non-empty gets the block that only
  says that all its values are empty: that block carries no predominant type and no
  most common values. With the header \<^verbatim>\<open>["z"]\<close> and the rows \<^verbatim>\<open>[[""],[""]]\<close> the
  column \<^verbatim>\<open>z\<close> holds two empty values, its count of non-empty values is 0, and the
  report of the run has that block for \<^verbatim>\<open>z\<close>.
\<close>

theorem coluna_toda_vazia:
  "(dados coluna = Some valores_coluna \<and> length (valores_nao_vazios valores_coluna) = 0 \<longrightarrow>
      bloco_coluna lim dados coluna = Inr TodosVazios) \<and>
   valores_da_coluna [''z''] [[''''], ['''']] ''z'' = Some ['''', ''''] \<and>
   length (valores_nao_vazios ['''', '''']) = 0 \<and>
   analisar_csv lim caminho (Some [[''z''], [''''], ['''']]) =
     Inr (Impresso \<lparr>arquivo = basename caminho, linhas_de_dados = 2, total_de_colunas = 1,
                     colunas = [(''z'', TodosVazios)]\<rparr>)"
  using bloco_todos_vazios [of dados coluna valores_coluna lim] coluna_z_valores
    coluna_z_relatorio [of lim caminho]
  by (simp add: valores_nao_vazios_def)

theorem coluna_toda_vazia_witness:
  "[''z'' \<mapsto> ['''', '''']] ''z'' = Some ['''', ''''] \<and>
   length (valores_nao_vazios ['''', '''']) = 0 \<and>
   bloco_coluna 4300 [''z'' \<mapsto> ['''', '''']] ''z'' = Inr TodosVazios"
  using coluna_toda_vazia [of "[''z'' \<mapsto> ['''', '''']]" "''z''" "['''', '''']" 4300 "''z.csv''"]
  by (simp add: valores_nao_vazios_def)

lemma linha_errada_pulada:
  "length linha \<noteq> length cabecalho \<Longrightarrow>
   processar_linha cabecalho (length cabecalho) (dados_colunas, contagem_linhas) linha =
     Inr (dados_colunas, contagem_linhas + 1)"
  by (simp add: processar_linha_def)

lemma exemplo_xy_contagem: "linhas_contadas [''x'', ''y''] [[''1'', ''2''], [''3'']] = Some 2"
  by (simp add: ingestao_defs)

lemma exemplo_xy_coluna_x:
  "valores_da_coluna [''x'', ''y''] [[''1'', ''2''], [''3'']] ''x'' = Some [''1'']"
  by (simp add: ingestao_defs)

lemma exemplo_xy_frequencia: "Counter (valores_nao_vazios [''1'']) = [(''1'', 1)]"
  by (simp add: Counter_def valores_nao_vazios_def)

text \<open>
  Claim C3. A row whose number of fields is not that of the header adds one to the row
  count and leaves the dictionary of the columns as it was, whatever that state is. With
  the header \<^verbatim>\<open>["x","y"]\<close> and the rows \<^verbatim>\<open>[["1","2"],["3"]]\<close> two rows are counted,
  one of the two has the wrong length, column \<^verbatim>\<open>x\<close> holds the single value \<^verbatim>\<open>"1"\<close>
  and its frequency table is \<^verbatim>\<open>{"1": 1}\<close>.
\<close>

theorem linha_malformada:
  "(length linha \<noteq> length cabecalho \<longrightarrow>
      processar_linha cabecalho (length cabecalho) (dados_colunas, contagem_linhas) linha =
        Inr (dados_colunas, contagem_linhas + 1)) \<and>
   linhas_contadas [''x'', ''y''] [[''1'', ''2''], [''3'']] = Some 2 \<and>
   length (filter (\<lambda>linha. length linha \<noteq> length [''x'', ''y'']) [[''1'', ''2''], [''3'']]) = 1 \<and>
   valores_da_coluna [''x'', ''y''] [[''1'', ''2''], [''3'']] ''x'' = Some [''1''] \<and>
   Counter (valores_nao_vazios [''1'']) = [(''1'', 1)]"
  using linha_errada_pulada [of linha cabecalho dados_colunas contagem_linhas]
    exemplo_xy_contagem exemplo_xy_coluna_x exemplo_xy_frequencia
  by simp

theorem linha_malformada_witness:
  "length [''3''] \<noteq> length [''x'', ''y''] \<and>
   processar_linha [''x'', ''y''] (length [''x'', ''y'']) ([''x'' \<mapsto> [''1''], ''y'' \<mapsto> [''2'']], 1) [''3''] =
     Inr ([''x'' \<mapsto> [''1''], ''y'' \<mapsto> [''2'']], 1 + 1)"
  using linha_malformada [of "[''3'']" "[''x'', ''y'']" "[''x'' \<mapsto> [''1''], ''y'' \<mapsto> [''2'']]" 1]
  by simp

section \<open>The tally: counts, keys and their order\<close>

lemma Counter_snoc: "Counter (xs @ [x]) = contar x (Counter xs)"
  by (simp add: Counter_def)

lemma Counter_Nil: "Counter [] = []"
  by (simp add: Counter_def)

lemma soma_contar: "sum_list (map snd (contar x kcs)) = Suc (sum_list (map snd kcs))"
  by (induction x kcs rule: contar.induct) auto

lemma soma_Counter: "sum_list (map snd (Counter xs)) = length xs"
  by (induction xs rule: rev_induct) (simp_all add: Counter_Nil Counter_snoc soma_contar)

lemma chaves_contar:
  "map fst (contar x kcs) = (if x \<in> fst ` set kcs then map fst kcs else map fst kcs @ [x])"
  by (induction x kcs rule: contar.induct) force+

lemma set_chaves_Counter: "fst ` set (Counter xs) = set xs"
proof (induction xs rule: rev_induct)
  case Nil
  then show ?case by (simp add: Counter_Nil)
next
  case (snoc x xs)
  have "set (map fst (Counter (xs @ [x]))) = insert x (set xs)"
    unfolding Counter_snoc chaves_contar using snoc.IH by auto
  then show ?case by simp
qed

lemma distinct_chaves_Counter: "distinct (map fst (Counter xs))"
proof (induction xs rule: rev_induct)
  case Nil
  then show ?case by (simp add: Counter_Nil)
next
  case (snoc x xs)
  then show ?case
    unfolding Counter_snoc chaves_contar by (simp add: set_chaves_Counter)
qed

lemma contar_outro: "k \<noteq> x \<Longrightarrow> (k, c) \<in> set (contar x kcs) \<longleftrightarrow> (k, c) \<in> set kcs"
  by (induction x kcs rule: contar.induct) auto

lemma contar_novo: "x \<notin> fst ` set kcs \<Longrightarrow> (x, c) \<in> set (contar x kcs) \<longleftrightarrow> c = 1"
  by (induction x kcs rule: contar.induct) force+

lemma contar_velho:
  "distinct (map fst kcs) \<Longrightarrow> (x, n) \<in> set kcs \<Longrightarrow> (x, c) \<in> set (contar x kcs) \<longleftrightarrow> c = Suc n"
  by (induction x kcs rule: contar.induct) force+

lemma Counter_valor: "(k, c) \<in> set (Counter xs) \<longleftrightarrow> k \<in> set xs \<and> c = count_list xs k"
proof (induction xs arbitrary: c rule: rev_induct)
  case Nil
  then show ?case by (simp add: Counter_Nil)
next
  case (snoc x xs)
  have d: "distinct (map fst (Counter xs))" by (rule distinct_chaves_Counter)
  have s: "fst ` set (Counter xs) = set xs" by (rule set_chaves_Counter)
  show ?case
  proof (cases "k = x")
    case False
    then show ?thesis using snoc.IH by (simp add: Counter_snoc contar_outro)
  next
    case True
    show ?thesis
    proof (cases "x \<in> set xs")
      case False
      then have "x \<notin> fst ` set (Counter xs)" using s by simp
      then show ?thesis using True False by (simp add: Counter_snoc contar_novo)
    next
      case in_xs: True
      then have "(x, count_list xs x) \<in> set (Counter xs)" using snoc.IH True by simp
      then show ?thesis using True in_xs d by (simp add: Counter_snoc contar_velho)
    qed
  qed
qed

lemma primeira_snoc:
  "primeira_ocorrencia (xs @ [x]) v =
     (if v \<in> set xs then primeira_ocorrencia xs v else if v = x then length xs else Suc (length xs))"
  unfolding primeira_ocorrencia_def takeWhile_append by auto

lemma primeira_lt: "v \<in> set xs \<Longrightarrow> primeira_ocorrencia xs v < length xs"
  unfolding primeira_ocorrencia_def
  by (induction xs) auto

lemma ordem_Counter:
  "sorted_wrt (\<lambda>a b. primeira_ocorrencia xs a < primeira_ocorrencia xs b) (map fst (Counter xs))"
proof (induction xs rule: rev_induct)
  case Nil
  then show ?case by (simp add: Counter_Nil)
next
  case (snoc x xs)
  let ?ks = "map fst (Counter xs)"
  have s: "set ?ks = set xs" using set_chaves_Counter [of xs] by simp
  have eq: "sorted_wrt (\<lambda>a b. primeira_ocorrencia (xs @ [x]) a < primeira_ocorrencia (xs @ [x]) b) ?ks"
  proof (rule sorted_wrt_mono_rel [OF _ snoc.IH])
    fix a b assume "a \<in> set ?ks" "b \<in> set ?ks" "primeira_ocorrencia xs a < primeira_ocorrencia xs b"
    then show "primeira_ocorrencia (xs @ [x]) a < primeira_ocorrencia (xs @ [x]) b"
      using s by (simp add: primeira_snoc)
  qed
  show ?case
  proof (cases "x \<in> set xs")
    case True
    then have "x \<in> fst ` set (Counter xs)" using set_chaves_Counter [of xs] by simp
    then show ?thesis using eq by (simp add: Counter_snoc chaves_contar)
  next
    case False
    then have nin: "x \<notin> fst ` set (Counter xs)" using set_chaves_Counter [of xs] by simp
    have "\<forall>k\<in>set ?ks. primeira_ocorrencia (xs @ [x]) k < primeira_ocorrencia (xs @ [x]) x"
      unfolding s using False by (simp add: primeira_snoc primeira_lt)
    then show ?thesis using eq nin
      by (simp add: Counter_snoc chaves_contar sorted_wrt_append del: set_map)
  qed
qed

section \<open>The descending stable sort and the first maximum\<close>

lemma insort_key_lex:
  fixes f :: "'a \<Rightarrow> nat"
  assumes "sorted_wrt (\<lambda>a b. f a < f b \<or> (f a = f b \<and> R a b)) zs" and "\<forall>y\<in>set zs. R x y"
  shows "sorted_wrt (\<lambda>a b. f a < f b \<or> (f a = f b \<and> R a b)) (insort_key f x zs)"
  using assms
proof (induction zs)
  case Nil
  then show ?case by simp
next
  case (Cons z zs)
  show ?case
  proof (cases "f x \<le> f z")
    case True
    have "\<forall>y\<in>set zs. f z \<le> f y" using Cons.prems(1) by auto
    then have "\<forall>y\<in>set (z # zs). f x \<le> f y" using True by auto
    then have "\<forall>y\<in>set (z # zs). f x < f y \<or> (f x = f y \<and> R x y)"
      using Cons.prems(2) by (metis le_neq_implies_less)
    then show ?thesis using True Cons.prems(1) by simp
  next
    case False
    have "sorted_wrt (\<lambda>a b. f a < f b \<or> (f a = f b \<and> R a b)) (insort_key f x zs)"
      using Cons by simp
    then show ?thesis using False Cons.prems(1) by (auto simp: set_insort_key)
  qed
qed

lemma sort_key_lex:
  fixes f :: "'a \<Rightarrow> nat"
  shows "sorted_wrt R ys \<Longrightarrow> sorted_wrt (\<lambda>a b. f a < f b \<or> (f a = f b \<and> R a b)) (sort_key f ys)"
proof (induction ys)
  case Nil
  then show ?case by simp
next
  case (Cons y ys)
  then show ?case by (simp add: insort_key_lex)
qed

lemma sorted_reverse_lex:
  assumes "sorted_wrt R items"
  shows "sorted_wrt (\<lambda>a b. snd b < snd a \<or> (snd a = snd b \<and> R a b)) (sorted_reverse items)"
proof -
  have "sorted_wrt (\<lambda>a b. R b a) (rev items)"
    using assms by (simp add: sorted_wrt_rev)
  then have "sorted_wrt (\<lambda>a b. snd a < snd b \<or> (snd a = snd b \<and> R b a)) (sort_key snd (rev items))"
    by (rule sort_key_lex)
  then have "sorted_wrt (\<lambda>a b. snd b < snd a \<or> (snd b = snd a \<and> R a b)) (sorted_reverse items)"
    by (simp add: sorted_reverse_def sorted_wrt_rev)
  then show ?thesis
    by (rule sorted_wrt_mono_rel [rotated]) auto
qed

lemma set_sorted_reverse: "set (sorted_reverse items) = set items"
  by (simp add: sorted_reverse_def)

lemma py_max_split:
  "\<exists>pre post. m # xs = pre @ py_max m xs # post \<and>
     (\<forall>y\<in>set pre. snd y < snd (py_max m xs)) \<and> (\<forall>y\<in>set post. snd y \<le> snd (py_max m xs))"
proof (induction xs arbitrary: m)
  case Nil
  have "[m] = [] @ py_max m [] # [] \<and> (\<forall>y\<in>set []. snd y < snd (py_max m [])) \<and>
        (\<forall>y\<in>set []. snd y \<le> snd (py_max m []))" by simp
  then show ?case by (intro exI)
next
  case (Cons x xs)
  show ?case
  proof (cases "snd m < snd x")
    case True
    then have r: "py_max m (x # xs) = py_max x xs" by simp
    obtain pre post where h: "x # xs = pre @ py_max x xs # post"
      "\<forall>y\<in>set pre. snd y < snd (py_max x xs)" "\<forall>y\<in>set post. snd y \<le> snd (py_max x xs)"
      using Cons.IH [of x] by blast
    have "snd x \<le> snd (py_max x xs)"
      using h(1,2) by (cases pre) auto
    then have "\<forall>y\<in>set (m # pre). snd y < snd (py_max x xs)" using True h(2) by auto
    moreover have "m # x # xs = (m # pre) @ py_max x xs # post" using h(1) by simp
    ultimately have "m # x # xs = (m # pre) @ py_max m (x # xs) # post \<and>
        (\<forall>y\<in>set (m # pre). snd y < snd (py_max m (x # xs))) \<and>
        (\<forall>y\<in>set post. snd y \<le> snd (py_max m (x # xs)))"
      unfolding r using h(3) by blast
    then show ?thesis by (intro exI)
  next
    case False
    then have r: "py_max m (x # xs) = py_max m xs" by simp
    obtain pre post where h: "m # xs = pre @ py_max m xs # post"
      "\<forall>y\<in>set pre. snd y < snd (py_max m xs)" "\<forall>y\<in>set post. snd y \<le> snd (py_max m xs)"
      using Cons.IH [of m] by blast
    show ?thesis
    proof (cases pre)
      case Nil
      then have e: "py_max m xs = m" "post = xs" using h(1) by auto
      have "m # x # xs = [] @ py_max m (x # xs) # (x # xs) \<and>
        (\<forall>y\<in>set []. snd y < snd (py_max m (x # xs))) \<and>
        (\<forall>y\<in>set (x # xs). snd y \<le> snd (py_max m (x # xs)))"
        unfolding r using False h(3) e by auto
      then show ?thesis by (intro exI)
    next
      case (Cons p pre')
      then have pm: "p = m" "xs = pre' @ py_max m xs # post" using h(1) by auto
      have "snd m < snd (py_max m xs)" using h(2) Cons pm(1) by simp
      then have "\<forall>y\<in>set (m # x # pre'). snd y < snd (py_max m xs)"
        using h(2) Cons False by auto
      moreover have "m # x # xs = (m # x # pre') @ py_max m xs # post" using pm(2) by simp
      ultimately have "m # x # xs = (m # x # pre') @ py_max m (x # xs) # post \<and>
        (\<forall>y\<in>set (m # x # pre'). snd y < snd (py_max m (x # xs))) \<and>
        (\<forall>y\<in>set post. snd y \<le> snd (py_max m (x # xs)))"
        unfolding r using h(3) by blast
      then show ?thesis by (intro exI)
    qed
  qed
qed

lemma Counter_nao_vazio: "xs \<noteq> [] \<Longrightarrow> Counter xs \<noteq> []"
  using set_chaves_Counter [of xs] by auto

lemma predominante_Counter:
  assumes "tipos \<noteq> []"
  shows "\<exists>t. predominante (Counter tipos) = Inr t \<and> t \<in> set tipos \<and>
           (\<forall>u. count_list tipos u \<le> count_list tipos t) \<and>
           (\<forall>u. u \<noteq> t \<and> count_list tipos u = count_list tipos t \<longrightarrow>
                  primeira_ocorrencia tipos t < primeira_ocorrencia tipos u)"
proof -
  obtain m xs where c: "Counter tipos = m # xs"
    using Counter_nao_vazio [OF assms] by (cases "Counter tipos") auto
  obtain pre post where h: "m # xs = pre @ py_max m xs # post"
    "\<forall>y\<in>set pre. snd y < snd (py_max m xs)" "\<forall>y\<in>set post. snd y \<le> snd (py_max m xs)"
    using py_max_split [of m xs] by blast
  obtain t n where r: "py_max m xs = (t, n)" by (cases "py_max m xs")
  have cs: "Counter tipos = pre @ (t, n) # post" using c h(1) r by simp
  then have "(t, n) \<in> set (Counter tipos)" by simp
  then have tn: "t \<in> set tipos" "n = count_list tipos t" by (simp_all add: Counter_valor)
  have p: "predominante (Counter tipos) = Inr t"
    by (simp add: predominante_def most_common_def c r)
  have onde: "(u, count_list tipos u) \<in> set pre \<or> u = t \<or> (u, count_list tipos u) \<in> set post"
    if "u \<in> set tipos" for u
  proof -
    have "(u, count_list tipos u) \<in> set (Counter tipos)" using that by (simp add: Counter_valor)
    then show ?thesis unfolding cs by auto
  qed
  have maximo: "count_list tipos u \<le> count_list tipos t" for u
  proof (cases "u \<in> set tipos")
    case True
    then show ?thesis using onde [OF True] h(2,3) r tn(2) by force
  next
    case False
    then show ?thesis by simp
  qed
  have ordem: "sorted_wrt (\<lambda>a b. primeira_ocorrencia tipos (fst a) < primeira_ocorrencia tipos (fst b))
                 (pre @ (t, n) # post)"
    using ordem_Counter [of tipos] unfolding cs [symmetric] by (simp add: sorted_wrt_map)
  have empate: "primeira_ocorrencia tipos t < primeira_ocorrencia tipos u"
    if "u \<noteq> t" "count_list tipos u = count_list tipos t" for u
  proof -
    have "count_list tipos t \<noteq> 0" using tn(1) by (simp add: count_list_0_iff)
    then have nz: "count_list tipos u \<noteq> 0" using that(2) by simp
    have "u \<in> set tipos"
    proof (rule ccontr)
      assume "u \<notin> set tipos"
      then have "count_list tipos u = 0" by (rule count_notin)
      then show False using nz by simp
    qed
    then have "(u, count_list tipos u) \<in> set post"
      using onde [of u] that h(2) r tn(2) by force
    then show ?thesis using ordem by (force simp: sorted_wrt_append)
  qed
  show ?thesis using p tn(1) maximo empate by blast
qed

lemma most_common_5: "most_common 5 items = take 5 (sorted_reverse items)"
  by (simp add: most_common_def)

lemma ordem_sorted_reverse_Counter: "sorted_wrt (ordem_top xs) (sorted_reverse (Counter xs))"
proof -
  have "sorted_wrt (\<lambda>a b. primeira_ocorrencia xs (fst a) < primeira_ocorrencia xs (fst b)) (Counter xs)"
    using ordem_Counter [of xs] by (simp add: sorted_wrt_map)
  then have "sorted_wrt (\<lambda>a b. snd b < snd a \<or> (snd a = snd b \<and>
       primeira_ocorrencia xs (fst a) < primeira_ocorrencia xs (fst b))) (sorted_reverse (Counter xs))"
    by (rule sorted_reverse_lex)
  then show ?thesis
    by (rule sorted_wrt_mono_rel [rotated]) (simp add: ordem_top_def)
qed

lemma set_sorted_reverse_Counter:
  "set (sorted_reverse (Counter xs)) = (\<lambda>v. (v, count_list xs v)) ` set xs"
  unfolding set_sorted_reverse using Counter_valor [of _ _ xs] by auto

lemma distinct_sorted_reverse_Counter: "distinct (map fst (sorted_reverse (Counter xs)))"
proof -
  have d: "distinct (map fst (Counter xs))" by (rule distinct_chaves_Counter)
  then have "distinct (Counter xs)" "inj_on fst (set (Counter xs))"
    by (simp_all add: distinct_map)
  then have "distinct (sorted_reverse (Counter xs))" "inj_on fst (set (sorted_reverse (Counter xs)))"
    by (simp_all add: sorted_reverse_def)
  then show ?thesis by (simp add: distinct_map)
qed

section \<open>Count conservation\<close>

lemma exemplo_conservacao_coluna:
  "valores_da_coluna [''x'', ''y''] [[''1'', ''2''], ['' '', ''3''], [''1 '', ''4'']] ''x'' =
     Some [''1'', '''', ''1'']"
  by (simp add: ingestao_defs)

lemma exemplo_conservacao_bloco:
  "bloco_coluna 4300 [''x'' \<mapsto> [''1'', '''', ''1'']] ''x'' =
     Inr (Estatisticas \<lparr>nao_vazios = 2, total_valores = 3, valores_vazios = 1,
            contagem_unicos = 1, tipo_predominante = ''INT'',
            mais_comuns = [(''1'', 2, 1000)]\<rparr>)"
  by code_simp

lemma length_valores_nao_vazios: "length (valores_nao_vazios vs) \<le> length vs"
  by (simp add: valores_nao_vazios_def)

text \<open>
  Claim C1. For every column of every ingested input, the number of stored values is
  the number of empty ones (the total minus the non-empty ones, line 96) plus the sum
  of the counts of the frequency table of the non-empty ones (line 109). The figures
  printed for a column that has a non-empty value obey the same equation.
\<close>

theorem conservacao_das_contagens:
  "(valores_da_coluna cabecalho leitor coluna = Some valores_coluna \<longrightarrow>
      0 \<le> int (length valores_coluna) - int (length (valores_nao_vazios valores_coluna)) \<and>
      int (length valores_coluna) =
        (int (length valores_coluna) - int (length (valores_nao_vazios valores_coluna))) +
        int (sum_list (map snd (Counter (valores_nao_vazios valores_coluna))))) \<and>
   (dados coluna = Some valores_coluna \<and> bloco_coluna lim dados coluna = Inr (Estatisticas e) \<longrightarrow>
      int (total_valores e) =
        valores_vazios e + int (sum_list (map snd (Counter (valores_nao_vazios valores_coluna)))))"
proof -
  have soma: "sum_list (map snd (Counter (valores_nao_vazios valores_coluna))) =
              length (valores_nao_vazios valores_coluna)"
    by (rule soma_Counter)
  have menor: "length (valores_nao_vazios valores_coluna) \<le> length valores_coluna"
    by (rule length_valores_nao_vazios)
  have impresso: "int (total_valores e) =
        valores_vazios e + int (length (valores_nao_vazios valores_coluna))"
    if "dados coluna = Some valores_coluna" "bloco_coluna lim dados coluna = Inr (Estatisticas e)"
    using that
    by (auto simp: bloco_coluna_def Let_def split: if_splits sum.splits)
  show ?thesis
    unfolding soma using menor impresso by simp
qed

theorem conservacao_das_contagens_witness:
  "valores_da_coluna [''x'', ''y''] [[''1'', ''2''], ['' '', ''3''], [''1 '', ''4'']] ''x'' =
     Some [''1'', '''', ''1''] \<and>
   int (length [''1'', '''', ''1'']) =
     (int (length [''1'', '''', ''1'']) - int (length (valores_nao_vazios [''1'', '''', ''1'']))) +
     int (sum_list (map snd (Counter (valores_nao_vazios [''1'', '''', ''1''])))) \<and>
   [''x'' \<mapsto> [''1'', '''', ''1'']] ''x'' = Some [''1'', '''', ''1''] \<and>
   bloco_coluna 4300 [''x'' \<mapsto> [''1'', '''', ''1'']] ''x'' =
     Inr (Estatisticas \<lparr>nao_vazios = 2, total_valores = 3, valores_vazios = 1,
            contagem_unicos = 1, tipo_predominante = ''INT'',
            mais_comuns = [(''1'', 2, 1000)]\<rparr>) \<and>
   int 3 = 1 + int (sum_list (map snd (Counter (valores_nao_vazios [''1'', '''', ''1'']))))"
  using conservacao_das_contagens [of "[''x'', ''y'']" "[[''1'', ''2''], ['' '', ''3''], [''1 '', ''4'']]"
      "''x''" "[''1'', '''', ''1'']" "[''x'' \<mapsto> [''1'', '''', ''1'']]" 4300
      "\<lparr>nao_vazios = 2, total_valores = 3, valores_vazios = 1,
            contagem_unicos = 1, tipo_predominante = ''INT'',
            mais_comuns = [(''1'', 2, 1000)]\<rparr>"]
    exemplo_conservacao_coluna exemplo_conservacao_bloco
  by simp

section \<open>The predominant type on a tie\<close>

lemma empate_codigo: "predominante (tipos_inferidos 4300 [''abc'', ''1'']) = Inr ''string''"
  by code_simp

lemma empate_precedencia:
  "predominante_por_precedencia (map (inferir_tipo_dado 4300) [''abc'', ''1'']) = Some ''int''"
  by code_simp

lemma empate_relatorio:
  "analisar_csv 4300 ''t.csv'' (Some [[''v''], [''abc''], [''1'']]) =
     Inr (Impresso \<lparr>arquivo = ''t.csv'', linhas_de_dados = 2, total_de_colunas = 1,
       colunas = [(''v'', Estatisticas \<lparr>nao_vazios = 2, total_valores = 2, valores_vazios = 0,
          contagem_unicos = 2, tipo_predominante = ''STRING'',
          mais_comuns = [(''abc'', 1, 500), (''1'', 1, 500)]\<rparr>)]\<rparr>)"
  by code_simp

text \<open>
  Claim C4 as the specification states it fails. A column with the values \<^verbatim>\<open>"abc"\<close>
  and \<^verbatim>\<open>"1"\<close> has one text and one integer: the order empty, integer, float, text
  picks the integer, the program prints \<^verbatim>\<open>STRING\<close>.
\<close>

theorem predominante_empate_contraexemplo:
  "predominante (tipos_inferidos 4300 [''abc'', ''1'']) = Inr ''string'' \<and>
   predominante_por_precedencia (map (inferir_tipo_dado 4300) [''abc'', ''1'']) = Some ''int'' \<and>
   analisar_csv 4300 ''t.csv'' (Some [[''v''], [''abc''], [''1'']]) =
     Inr (Impresso \<lparr>arquivo = ''t.csv'', linhas_de_dados = 2, total_de_colunas = 1,
       colunas = [(''v'', Estatisticas \<lparr>nao_vazios = 2, total_valores = 2, valores_vazios = 0,
          contagem_unicos = 2, tipo_predominante = ''STRING'',
          mais_comuns = [(''abc'', 1, 500), (''1'', 1, 500)]\<rparr>)]\<rparr>)"
  using empate_codigo empate_precedencia empate_relatorio by simp

text \<open>
  Claim C4, amended. For a column with a non-empty value the predominant type is a
  type of maximal tally, and when two or more types reach that tally it is the one
  among them that occurs first in the column (in the order of the non-empty values).
  The result is a function of the column: it is deterministic.
\<close>

theorem predominante_empate:
  assumes "nv \<noteq> []"
  shows "\<exists>t. predominante (tipos_inferidos lim nv) = Inr t \<and>
           t \<in> set (map (inferir_tipo_dado lim) nv) \<and>
           (\<forall>u. count_list (map (inferir_tipo_dado lim) nv) u
                  \<le> count_list (map (inferir_tipo_dado lim) nv) t) \<and>
           (\<forall>u. u \<noteq> t \<and> count_list (map (inferir_tipo_dado lim) nv) u
                            = count_list (map (inferir_tipo_dado lim) nv) t \<longrightarrow>
                  primeira_ocorrencia (map (inferir_tipo_dado lim) nv) t
                    < primeira_ocorrencia (map (inferir_tipo_dado lim) nv) u)"
proof -
  have "map (inferir_tipo_dado lim) nv \<noteq> []" using assms by simp
  then show ?thesis
    unfolding tipos_inferidos_def by (rule predominante_Counter)
qed

theorem predominante_empate_witness:
  "[''abc'', ''1''] \<noteq> [] \<and>
   (\<exists>t. predominante (tipos_inferidos 4300 [''abc'', ''1'']) = Inr t \<and>
         t \<in> set (map (inferir_tipo_dado 4300) [''abc'', ''1'']) \<and>
         (\<forall>u. count_list (map (inferir_tipo_dado 4300) [''abc'', ''1'']) u
                \<le> count_list (map (inferir_tipo_dado 4300) [''abc'', ''1'']) t) \<and>
         (\<forall>u. u \<noteq> t \<and> count_list (map (inferir_tipo_dado 4300) [''abc'', ''1'']) u
                          = count_list (map (inferir_tipo_dado 4300) [''abc'', ''1'']) t \<longrightarrow>
                primeira_ocorrencia (map (inferir_tipo_dado 4300) [''abc'', ''1'']) t
                  < primeira_ocorrencia (map (inferir_tipo_dado 4300) [''abc'', ''1'']) u))"
  using predominante_empate [of "[''abc'', ''1'']" 4300] by simp

section \<open>The most common values\<close>

lemma exemplo_abacba:
  "linhas_mais_comuns (length [''a'', ''b'', ''a'', ''c'', ''b'', ''a''])
     (most_common 5 (Counter [''a'', ''b'', ''a'', ''c'', ''b'', ''a''])) =
   Inr [(''a'', 3, 500), (''b'', 2, 333), (''c'', 1, 167)]"
  by code_simp

text \<open>
  Claim C6. The ranking of the distinct non-empty values of a column is by descending
  count, ties by ascending first occurrence: the full descending sort of the tally is
  sorted in that order, it holds each distinct value once with its number of
  occurrences, and the five most common values are its first five entries. For the
  values \<^verbatim>\<open>["a","b","a","c","b","a"]\<close> the lines printed are \<^verbatim>\<open>a\<close> with 3 and 50.0%,
  \<^verbatim>\<open>b\<close> with 2 and 33.3%, \<^verbatim>\<open>c\<close> with 1 and 16.7% (percentages in tenths).
\<close>

theorem mais_comuns_ordenados:
  "most_common 5 (Counter nv) = take 5 (sorted_reverse (Counter nv)) \<and>
   sorted_wrt (ordem_top nv) (sorted_reverse (Counter nv)) \<and>
   sorted_wrt (ordem_top nv) (most_common 5 (Counter nv)) \<and>
   set (sorted_reverse (Counter nv)) = (\<lambda>v. (v, count_list nv v)) ` set nv \<and>
   distinct (map fst (sorted_reverse (Counter nv))) \<and>
   linhas_mais_comuns (length [''a'', ''b'', ''a'', ''c'', ''b'', ''a''])
     (most_common 5 (Counter [''a'', ''b'', ''a'', ''c'', ''b'', ''a''])) =
   Inr [(''a'', 3, 500), (''b'', 2, 333), (''c'', 1, 167)]"
proof -
  have "sorted_wrt (ordem_top nv) (take 5 (sorted_reverse (Counter nv)))"
    using ordem_sorted_reverse_Counter [of nv] by (rule sorted_wrt_take)
  then show ?thesis
    using most_common_5 [of "Counter nv"] ordem_sorted_reverse_Counter [of nv]
      set_sorted_reverse_Counter [of nv] distinct_sorted_reverse_Counter [of nv] exemplo_abacba
    by simp
qed

section \<open>The keywords for values that are not finite\<close>

lemma tolower_letra:
  assumes "py_tolower c = l" and "97 \<le> codigo l" and "codigo l \<le> 122"
  shows "letra c"
proof (cases "65 \<le> codigo c \<and> codigo c \<le> 90")
  case True
  then show ?thesis by (simp add: letra_def)
next
  case False
  then have "c = l" using assms(1) by (auto simp: py_tolower_def split: if_splits)
  then show ?thesis using assms(2,3) by (simp add: letra_def)
qed

lemma letra_classes:
  assumes "letra c"
  shows "codigo c < 128" "\<not> c_isspace c" "\<not> is_digit c" "\<not> e_zero c"
    "c \<noteq> CHR ''_''" "c \<noteq> CHR ''+''" "c \<noteq> CHR ''-''" "c \<noteq> CHR ''.''"
  using assms by (auto simp: letra_def c_isspace_def is_digit_def e_zero_def codigo_def)

lemma palavra_letras:
  assumes "map py_tolower s \<in> {''nan'', ''inf'', ''infinity''}"
  shows "list_all letra s"
proof -
  have "\<forall>l\<in>set (map py_tolower s). 97 \<le> codigo l \<and> codigo l \<le> 122"
    using assms by (auto simp: codigo_def)
  then have "\<forall>c\<in>set s. letra c"
    using tolower_letra by auto
  then show ?thesis by (simp add: list_all_iff)
qed

lemma palavra_nao_vazia:
  "map py_tolower s \<in> {''nan'', ''inf'', ''infinity''} \<Longrightarrow> s \<noteq> []"
  by auto

lemma cim_map: "case_insensitive_match s t = (take (length t) (map py_tolower s) = t)"
  by (simp add: case_insensitive_match_def take_map)

lemma inf_ou_nan_palavra:
  assumes "map py_tolower s \<in> {''nan'', ''inf'', ''infinity''}" and "sem_sinal p = s"
  shows "parse_inf_or_nan p = Some []"
proof -
  consider "map py_tolower s = ''nan''" | "map py_tolower s = ''inf''" | "map py_tolower s = ''infinity''"
    using assms(1) by auto
  then show ?thesis
  proof cases
    case 1
    have "length (map py_tolower s) = 3" unfolding 1 by simp
    then have "length s = 3" by simp
    then show ?thesis using 1 by (simp add: parse_inf_or_nan_def assms(2) cim_map)
  next
    case 2
    have "length (map py_tolower s) = 3" unfolding 2 by simp
    then have l: "length s = 3" by simp
    then show ?thesis using 2 by (simp add: parse_inf_or_nan_def assms(2) cim_map)
  next
    case 3
    have "length (map py_tolower s) = 8" unfolding 3 by simp
    then have l: "length s = 8" by simp
    have d: "map py_tolower (drop 3 s) = ''inity''" unfolding drop_map [symmetric] 3 by simp
    show ?thesis using 3 l d
      by (simp add: parse_inf_or_nan_def assms(2) cim_map Let_def)
  qed
qed

lemma sinal_casos:
  assumes "sinal \<in> {'''', ''+'', ''-''}"
  obtains "sinal = ''''" | "sinal = ''+''" | "sinal = ''-''"
  using assms by blast

lemma sinal_palavra:
  assumes "s = c # r" and "letra c" and "sinal \<in> {'''', ''+'', ''-''}"
  shows "sem_sinal (sinal @ s) = s" and "dropWhile c_isspace (sinal @ s) = sinal @ s"
proof -
  note cl = letra_classes [OF assms(2)]
  show "sem_sinal (sinal @ s) = s"
    using assms(3) by (rule sinal_casos) (simp_all add: sem_sinal_def assms(1) cl)
  have sp: "\<not> c_isspace CHR ''+''" "\<not> c_isspace CHR ''-''"
    by (simp_all add: c_isspace_def codigo_def)
  show "dropWhile c_isspace (sinal @ s) = sinal @ s"
    using assms(3) by (rule sinal_casos) (simp_all add: assms(1) cl sp)
qed

lemma ascii_sinal:
  assumes "sinal \<in> {'''', ''+'', ''-''}"
  shows "list_all (\<lambda>c. codigo c < 128) sinal" and "CHR ''_'' \<notin> set sinal"
proof -
  show "list_all (\<lambda>c. codigo c < 128) sinal"
    using assms by (rule sinal_casos) (simp_all add: codigo_def)
  show "CHR ''_'' \<notin> set sinal"
    using assms by (rule sinal_casos) simp_all
qed

lemma ascii_palavra:
  assumes "list_all letra s" and "sinal \<in> {'''', ''+'', ''-''}"
  shows "list_all (\<lambda>c. codigo c < 128) (sinal @ s)" and "CHR ''_'' \<notin> set (sinal @ s)"
proof -
  have "list_all (\<lambda>c. codigo c < 128) s"
    using assms(1) letra_classes(1) by (simp add: list_all_iff)
  then show "list_all (\<lambda>c. codigo c < 128) (sinal @ s)"
    using ascii_sinal(1) [OF assms(2)] by simp
  have "CHR ''_'' \<notin> set s"
    using assms(1) letra_classes(5) by (auto simp: list_all_iff)
  then show "CHR ''_'' \<notin> set (sinal @ s)"
    using ascii_sinal(2) [OF assms(2)] by simp
qed

lemma fim_palavra:
  assumes "s \<noteq> []" and "list_all letra s"
  shows "rev (dropWhile c_isspace (rev (sinal @ s))) = sinal @ s"
proof -
  obtain xs x where s: "s = xs @ [x]" using assms(1) by (metis rev_exhaust)
  then have "letra x" using assms(2) by simp
  then have "\<not> c_isspace x" by (rule letra_classes)
  then show ?thesis unfolding s by simp
qed

lemma strtod_palavra:
  assumes "s = c # r" and "letra c" and "sem_sinal p = s"
  shows "strtod p = None"
  using letra_classes [OF assms(2)]
  by (simp add: strtod_def assms(1,3))

lemma palavra_chave_float:
  assumes kw: "map py_tolower s \<in> {''nan'', ''inf'', ''infinity''}"
    and sg: "sinal \<in> {'''', ''+'', ''-''}"
  shows "inferir_tipo_dado lim (sinal @ s) = ''float''"
proof -
  have ls: "list_all letra s" using kw by (rule palavra_letras)
  have ne: "s \<noteq> []" using kw by (rule palavra_nao_vazia)
  then obtain c r where s: "s = c # r" by (cases s) auto
  then have lc: "letra c" using ls by simp
  note cl = letra_classes [OF lc]
  have ss: "sem_sinal (sinal @ s) = s" and dw: "dropWhile c_isspace (sinal @ s) = sinal @ s"
    using sinal_palavra [OF s lc sg] by simp_all
  have pa: "para_ascii (sinal @ s) = sinal @ s"
    using ascii_palavra(1) [OF ls sg] by (simp add: para_ascii_def)
  have v: "varrer (CHR 0x00) 0 (c # r) = Some (0, CHR 0x00, c # r)"
    using cl by simp
  have nint: "\<not> py_int_ok lim (sinal @ s)"
    unfolding py_int_ok_def long_from_string_base_def pa dw ss using v cl(5) by (simp add: s)
  have cs: "com_sublinhados (sinal @ s) = Some (sinal @ s)"
    using ascii_palavra(2) [OF ls sg] by (simp add: com_sublinhados_def)
  have st: "strtod (sinal @ s) = None" using strtod_palavra [OF s lc ss] .
  have pin: "parse_inf_or_nan (sinal @ s) = Some []" using inf_ou_nan_palavra [OF kw ss] .
  have fim: "rev (dropWhile c_isspace (rev (sinal @ s))) = sinal @ s"
    using fim_palavra [OF ne ls] .
  have vazio: "sinal @ s \<noteq> []" using ne by simp
  have "float_from_string_inner (sinal @ s) = (ascii_strtod (sinal @ s) = Some [])"
    unfolding float_from_string_inner_def Let_def dw fim using ne by simp
  then have "float_from_string_inner (sinal @ s)"
    by (simp add: ascii_strtod_def st pin)
  then have "py_float_ok (sinal @ s)" by (simp add: py_float_ok_def pa cs)
  then show ?thesis using nint vazio by (simp add: inferir_tipo_dado_def)
qed

text \<open>
  Claim C9. The keywords that \<^verbatim>\<open>float\<close> accepts for values that are not finite,
  \<^verbatim>\<open>nan\<close>, \<^verbatim>\<open>inf\<close> and \<^verbatim>\<open>infinity\<close> in any mix of upper and lower case, with or
  without a sign in front, are classified as float and not as text.
\<close>

theorem palavras_nao_finitas:
  assumes "map py_tolower s \<in> {''nan'', ''inf'', ''infinity''}"
    and "sinal \<in> {'''', ''+'', ''-''}"
  shows "inferir_tipo_dado lim (sinal @ s) = ''float'' \<and>
         inferir_tipo_dado lim (sinal @ s) \<noteq> ''string''"
  using palavra_chave_float [OF assms] by simp

theorem palavras_nao_finitas_witness:
  "map py_tolower ''InFiNiTy'' \<in> {''nan'', ''inf'', ''infinity''} \<and>
   ''-'' \<in> {'''', ''+'', ''-''} \<and>
   inferir_tipo_dado 4300 (''-'' @ ''InFiNiTy'') = ''float'' \<and>
   inferir_tipo_dado 4300 (''-'' @ ''InFiNiTy'') \<noteq> ''string''"
  using palavras_nao_finitas [of "''InFiNiTy''" "''-''" 4300] by code_simp

section \<open>What the loop stores, and a header with a repeated name\<close>

lemma inicializar_fold:
  "fold (\<lambda>col d. d(col \<mapsto> [])) cabecalho d0 c = (if c \<in> set cabecalho then Some [] else d0 c)"
  by (induction cabecalho arbitrary: d0) auto

lemma inicializar_valor:
  "inicializar cabecalho c = (if c \<in> set cabecalho then Some [] else None)"
  by (simp add: inicializar_def inicializar_fold)

lemma anexar_valores_ok:
  assumes "k + length xs \<le> length cabecalho" and "\<forall>c\<in>set cabecalho. d c \<noteq> None"
  shows "\<exists>d'. anexar_valores cabecalho (enumerate k xs) d = Inr d' \<and>
           (\<forall>c. d' c = map_option (\<lambda>vs. vs @ celulas_da_linha (drop k cabecalho) c xs) (d c))"
  using assms
proof (induction xs arbitrary: k d)
  case Nil
  then show ?case by (simp add: celulas_da_linha_def option.map_ident)
next
  case (Cons x xs)
  have k: "k < length cabecalho" using Cons.prems(1) by simp
  then have "cabecalho ! k \<in> set cabecalho" by simp
  then obtain vs where vs: "d (cabecalho ! k) = Some vs" using Cons.prems(2) by auto
  let ?d1 = "d(cabecalho ! k \<mapsto> vs @ [strip x])"
  have "Suc k + length xs \<le> length cabecalho" using Cons.prems(1) by simp
  moreover have "\<forall>c\<in>set cabecalho. ?d1 c \<noteq> None" using Cons.prems(2) by simp
  ultimately obtain d' where d': "anexar_valores cabecalho (enumerate (Suc k) xs) ?d1 = Inr d'"
    "\<forall>c. d' c = map_option (\<lambda>vs. vs @ celulas_da_linha (drop (Suc k) cabecalho) c xs) (?d1 c)"
    using Cons.IH [of "Suc k" ?d1] by blast
  have passo: "anexar_valores cabecalho (enumerate k (x # xs)) d = Inr d'"
    using k vs d'(1) by simp
  have dk: "drop k cabecalho = cabecalho ! k # drop (Suc k) cabecalho"
    using k by (simp add: Cons_nth_drop_Suc)
  have "d' c = map_option (\<lambda>vs. vs @ celulas_da_linha (drop k cabecalho) c (x # xs)) (d c)" for c
  proof (cases "c = cabecalho ! k")
    case True
    then show ?thesis using d'(2) vs by (simp add: dk celulas_da_linha_def)
  next
    case False
    then show ?thesis using d'(2) by (simp add: dk celulas_da_linha_def)
  qed
  then show ?case using passo by blast
qed

lemma processar_linha_ok:
  assumes "\<forall>c\<in>set cabecalho. d c \<noteq> None"
  shows "\<exists>d'. processar_linha cabecalho (length cabecalho) (d, n) linha = Inr (d', Suc n) \<and>
           (\<forall>c. d' c = map_option
                   (\<lambda>vs. vs @ concat (map (celulas_da_linha cabecalho c)
                                       (linhas_bem_formadas cabecalho [linha]))) (d c))"
proof (cases "length linha = length cabecalho")
  case False
  then show ?thesis
    by (simp add: processar_linha_def linhas_bem_formadas_def option.map_ident)
next
  case True
  then have "0 + length linha \<le> length cabecalho" by simp
  then obtain d' where d': "anexar_valores cabecalho (enumerate 0 linha) d = Inr d'"
    "\<forall>c. d' c = map_option (\<lambda>vs. vs @ celulas_da_linha (drop 0 cabecalho) c linha) (d c)"
    using anexar_valores_ok [OF _ assms, of 0 linha] by blast
  then show ?thesis using True
    by (simp add: processar_linha_def linhas_bem_formadas_def)
qed

lemma processar_linhas_ok:
  assumes "\<forall>c\<in>set cabecalho. d c \<noteq> None"
  shows "\<exists>d'. processar_linhas cabecalho (length cabecalho) (d, n) leitor = Inr (d', n + length leitor) \<and>
           (\<forall>c. d' c = map_option (\<lambda>vs. vs @ celulas cabecalho leitor c) (d c))"
  using assms
proof (induction leitor arbitrary: d n)
  case Nil
  then show ?case by (simp add: celulas_def linhas_bem_formadas_def option.map_ident)
next
  case (Cons linha leitor)
  obtain d1 where d1: "processar_linha cabecalho (length cabecalho) (d, n) linha = Inr (d1, Suc n)"
    "\<forall>c. d1 c = map_option
             (\<lambda>vs. vs @ concat (map (celulas_da_linha cabecalho c)
                                 (linhas_bem_formadas cabecalho [linha]))) (d c)"
    using processar_linha_ok [OF Cons.prems] by blast
  have "\<forall>c\<in>set cabecalho. d1 c \<noteq> None" using d1(2) Cons.prems by simp
  then obtain d' where d': "processar_linhas cabecalho (length cabecalho) (d1, Suc n) leitor =
      Inr (d', Suc n + length leitor)"
    "\<forall>c. d' c = map_option (\<lambda>vs. vs @ celulas cabecalho leitor c) (d1 c)"
    using Cons.IH [of d1 "Suc n"] by blast
  have "processar_linhas cabecalho (length cabecalho) (d, n) (linha # leitor) =
      Inr (d', n + length (linha # leitor))"
    using d1(1) d'(1) by simp
  moreover have "d' c = map_option (\<lambda>vs. vs @ celulas cabecalho (linha # leitor) c) (d c)" for c
    using d'(2) d1(2)
    by (cases "d c") (simp_all add: celulas_def linhas_bem_formadas_def)
  ultimately show ?case by blast
qed

lemma ingerir_ok:
  "\<exists>d. ingerir cabecalho leitor = Inr (d, length leitor) \<and>
        (\<forall>c. d c = (if c \<in> set cabecalho then Some (celulas cabecalho leitor c) else None))"
proof -
  have "\<forall>c\<in>set cabecalho. inicializar cabecalho c \<noteq> None"
    by (simp add: inicializar_valor)
  then obtain d where d: "processar_linhas cabecalho (length cabecalho) (inicializar cabecalho, 0) leitor =
      Inr (d, 0 + length leitor)"
    "\<forall>c. d c = map_option (\<lambda>vs. vs @ celulas cabecalho leitor c) (inicializar cabecalho c)"
    using processar_linhas_ok [of cabecalho "inicializar cabecalho" 0 leitor] by blast
  then have "ingerir cabecalho leitor = Inr (d, length leitor)" by (simp add: ingerir_def)
  moreover have "\<forall>c. d c = (if c \<in> set cabecalho then Some (celulas cabecalho leitor c) else None)"
    using d(2) by (simp add: inicializar_valor)
  ultimately show ?thesis by blast
qed

lemma valores_da_coluna_celulas:
  "valores_da_coluna cabecalho leitor coluna =
     (if coluna \<in> set cabecalho then Some (celulas cabecalho leitor coluna) else None)"
  using ingerir_ok [of cabecalho leitor] by (auto simp: valores_da_coluna_def)

lemma linhas_contadas_todas: "linhas_contadas cabecalho leitor = Some (length leitor)"
  using ingerir_ok [of cabecalho leitor] by (auto simp: linhas_contadas_def)

lemma length_filter_zip:
  "length xs = length ys \<Longrightarrow> length (filter (\<lambda>p. fst p = c) (zip xs ys)) = count_list xs c"
  by (induction xs ys rule: list_induct2) auto

lemma length_celulas_da_linha:
  "length linha = length cabecalho \<Longrightarrow> length (celulas_da_linha cabecalho c linha) = count_list cabecalho c"
  by (simp add: celulas_da_linha_def length_filter_zip)

lemma soma_constante: "(\<forall>x\<in>set xs. f x = (k::nat)) \<Longrightarrow> sum_list (map f xs) = k * length xs"
  by (induction xs) auto

lemma length_celulas:
  "length (celulas cabecalho leitor c) = count_list cabecalho c * length (linhas_bem_formadas cabecalho leitor)"
proof -
  have "\<forall>linha\<in>set (linhas_bem_formadas cabecalho leitor).
          length (celulas_da_linha cabecalho c linha) = count_list cabecalho c"
    by (simp add: linhas_bem_formadas_def length_celulas_da_linha)
  then have "sum_list (map (\<lambda>linha. length (celulas_da_linha cabecalho c linha))
                        (linhas_bem_formadas cabecalho leitor)) =
             count_list cabecalho c * length (linhas_bem_formadas cabecalho leitor)"
    by (rule soma_constante)
  then show ?thesis by (simp add: celulas_def length_concat comp_def)
qed

lemma linhas_mais_comuns_ok:
  "0 < n \<Longrightarrow> \<exists>ls. linhas_mais_comuns n itens = Inr ls"
proof (induction itens)
  case Nil
  then show ?case by simp
next
  case (Cons p itens)
  obtain valor contagem where p: "p = (valor, contagem)" by (cases p)
  obtain ls where "linhas_mais_comuns n itens = Inr ls" using Cons by blast
  moreover obtain q where "percentual contagem n = Inr q"
    using Cons.prems by (simp add: percentual_def Let_def)
  ultimately show ?case by (simp add: p)
qed

lemma bloco_coluna_ok:
  assumes "dados coluna = Some valores_coluna"
  shows "\<exists>b. bloco_coluna lim dados coluna = Inr b"
proof (cases "valores_nao_vazios valores_coluna = []")
  case True
  then show ?thesis using assms by (simp add: bloco_coluna_def)
next
  case False
  then obtain t where t: "predominante (tipos_inferidos lim (valores_nao_vazios valores_coluna)) = Inr t"
    using predominante_Counter [of "map (inferir_tipo_dado lim) (valores_nao_vazios valores_coluna)"]
    by (auto simp: tipos_inferidos_def)
  have "0 < length (valores_nao_vazios valores_coluna)" using False by simp
  then obtain ls where "linhas_mais_comuns (length (valores_nao_vazios valores_coluna))
       (most_common 5 (Counter (valores_nao_vazios valores_coluna))) = Inr ls"
    using linhas_mais_comuns_ok by blast
  then show ?thesis using assms False t by (simp add: bloco_coluna_def Let_def)
qed

lemma bloco_coluna_mesma_coluna:
  "dados coluna = dados' coluna \<Longrightarrow> bloco_coluna lim dados coluna = bloco_coluna lim dados' coluna"
  by (simp add: bloco_coluna_def)

lemma blocos_ok:
  assumes "\<forall>c\<in>set cols. dados c \<noteq> None"
  shows "\<exists>bs. blocos lim dados cols = Inr bs \<and> map fst bs = cols \<and>
           (\<forall>p\<in>set bs. bloco_coluna lim dados (fst p) = Inr (snd p))"
  using assms
proof (induction cols)
  case Nil
  then show ?case by simp
next
  case (Cons c cols)
  obtain vs where "dados c = Some vs" using Cons.prems by auto
  then obtain b where b: "bloco_coluna lim dados c = Inr b" using bloco_coluna_ok by blast
  obtain bs where bs: "blocos lim dados cols = Inr bs" "map fst bs = cols"
    "\<forall>p\<in>set bs. bloco_coluna lim dados (fst p) = Inr (snd p)"
    using Cons by auto
  show ?case
  proof (intro exI conjI)
    show "blocos lim dados (c # cols) = Inr ((c, b) # bs)" using b bs(1) by simp
    show "map fst ((c, b) # bs) = c # cols" using bs(2) by simp
    show "\<forall>p\<in>set ((c, b) # bs). bloco_coluna lim dados (fst p) = Inr (snd p)"
      using b bs(3) by simp
  qed
qed

lemma length_filter_fst: "length (filter (\<lambda>p. fst p = c) bs) = count_list (map fst bs) c"
  by (induction bs) auto

lemma filtro_replicado:
  assumes "\<forall>p\<in>set bs. fst p = c \<longrightarrow> p = a"
  shows "filter (\<lambda>p. fst p = c) bs = replicate (count_list (map fst bs) c) a"
proof -
  have "\<forall>p\<in>set (filter (\<lambda>p. fst p = c) bs). p = a" using assms by simp
  then have "filter (\<lambda>p. fst p = c) bs = replicate (length (filter (\<lambda>p. fst p = c) bs)) a"
    by (simp add: replicate_length_same)
  then show ?thesis by (simp add: length_filter_fst)
qed

lemma analisar_csv_relatorio:
  "\<exists>d bs. ingerir cabecalho leitor = Inr (d, length leitor) \<and>
     (\<forall>c. d c = (if c \<in> set cabecalho then Some (celulas cabecalho leitor c) else None)) \<and>
     blocos lim d cabecalho = Inr bs \<and> map fst bs = cabecalho \<and>
     (\<forall>p\<in>set bs. bloco_coluna lim d (fst p) = Inr (snd p)) \<and>
     analisar_csv lim caminho (Some (cabecalho # leitor)) =
       Inr (Impresso \<lparr>arquivo = basename caminho, linhas_de_dados = length leitor,
                       total_de_colunas = length cabecalho, colunas = bs\<rparr>)"
proof -
  obtain d where d: "ingerir cabecalho leitor = Inr (d, length leitor)"
    "\<forall>c. d c = (if c \<in> set cabecalho then Some (celulas cabecalho leitor c) else None)"
    using ingerir_ok by blast
  then have "\<forall>c\<in>set cabecalho. d c \<noteq> None" by simp
  then obtain bs where bs: "blocos lim d cabecalho = Inr bs" "map fst bs = cabecalho"
    "\<forall>p\<in>set bs. bloco_coluna lim d (fst p) = Inr (snd p)"
    using blocos_ok by blast
  have "analisar_csv lim caminho (Some (cabecalho # leitor)) =
       Inr (Impresso \<lparr>arquivo = basename caminho, linhas_de_dados = length leitor,
                       total_de_colunas = length cabecalho, colunas = bs\<rparr>)"
    using d(1) bs(1)
    by (simp add: analisar_csv_def abrir_def corpo_def proximo_def imprimir_relatorio_def)
  then show ?thesis using d bs by blast
qed

lemma cabecalho_repetido_aux:
  assumes "coluna \<in> set cabecalho"
  shows "\<exists>r b. analisar_csv lim caminho (Some (cabecalho # leitor)) = Inr (Impresso r) \<and>
           map fst (colunas r) = cabecalho \<and>
           bloco_coluna lim [coluna \<mapsto> celulas cabecalho leitor coluna] coluna = Inr b \<and>
           filter (\<lambda>p. fst p = coluna) (colunas r) = replicate (count_list cabecalho coluna) (coluna, b)"
proof -
  obtain d bs where h: "\<forall>c. d c = (if c \<in> set cabecalho then Some (celulas cabecalho leitor c) else None)"
     "map fst bs = cabecalho"
     "\<forall>p\<in>set bs. bloco_coluna lim d (fst p) = Inr (snd p)"
     "analisar_csv lim caminho (Some (cabecalho # leitor)) =
       Inr (Impresso \<lparr>arquivo = basename caminho, linhas_de_dados = length leitor,
                       total_de_colunas = length cabecalho, colunas = bs\<rparr>)"
    using analisar_csv_relatorio [of cabecalho leitor lim caminho] by blast
  have dc: "d coluna = Some (celulas cabecalho leitor coluna)" using h(1) assms by simp
  then obtain b where b: "bloco_coluna lim d coluna = Inr b" using bloco_coluna_ok by blast
  have b': "bloco_coluna lim [coluna \<mapsto> celulas cabecalho leitor coluna] coluna = Inr b"
    using b bloco_coluna_mesma_coluna [of d coluna "[coluna \<mapsto> celulas cabecalho leitor coluna]" lim] dc
    by simp
  have "\<forall>p\<in>set bs. fst p = coluna \<longrightarrow> p = (coluna, b)"
    using h(3) b by (auto simp: prod_eq_iff)
  then have "filter (\<lambda>p. fst p = coluna) bs = replicate (count_list (map fst bs) coluna) (coluna, b)"
    by (rule filtro_replicado)
  then have "filter (\<lambda>p. fst p = coluna) bs = replicate (count_list cabecalho coluna) (coluna, b)"
    using h(2) by simp
  then show ?thesis using h(2,4) b' by simp
qed

text \<open>
  Claim C10. If a name stands at more than one position of the header, the dictionary
  has one entry for it, which holds the cells of all those positions of every row of
  the right length, in the order of the rows and positions: as many values as the name
  has positions times the number of such rows. The report has one block for each
  position of the header, so the block of that merged column is printed once for each
  occurrence of the name.
\<close>

theorem cabecalho_repetido:
  assumes "1 < count_list cabecalho coluna"
  shows "valores_da_coluna cabecalho leitor coluna = Some (celulas cabecalho leitor coluna) \<and>
         length (celulas cabecalho leitor coluna) =
           count_list cabecalho coluna * length (linhas_bem_formadas cabecalho leitor) \<and>
         (\<exists>r b. analisar_csv lim caminho (Some (cabecalho # leitor)) = Inr (Impresso r) \<and>
                 map fst (colunas r) = cabecalho \<and>
                 bloco_coluna lim [coluna \<mapsto> celulas cabecalho leitor coluna] coluna = Inr b \<and>
                 filter (\<lambda>p. fst p = coluna) (colunas r) =
                   replicate (count_list cabecalho coluna) (coluna, b))"
proof -
  have "count_list cabecalho coluna \<noteq> 0" using assms by simp
  then have dentro: "coluna \<in> set cabecalho" by (simp add: count_list_0_iff)
  then show ?thesis
    using valores_da_coluna_celulas [of cabecalho leitor coluna]
      length_celulas [of cabecalho leitor coluna]
      cabecalho_repetido_aux [OF dentro, of lim caminho leitor]
    by simp
qed

theorem cabecalho_repetido_witness:
  "1 < count_list [''v'', ''w'', ''v''] ''v'' \<and>
   valores_da_coluna [''v'', ''w'', ''v''] [[''a'', ''b'', ''c''], [''d''], [''e'', ''f'', ''g'']] ''v'' =
     Some [''a'', ''c'', ''e'', ''g''] \<and>
   length [''a'', ''c'', ''e'', ''g''] =
     count_list [''v'', ''w'', ''v''] ''v'' *
     length (linhas_bem_formadas [''v'', ''w'', ''v''] [[''a'', ''b'', ''c''], [''d''], [''e'', ''f'', ''g'']])"
  using cabecalho_repetido [of "[''v'', ''w'', ''v'']" "''v''"
      "[[''a'', ''b'', ''c''], [''d''], [''e'', ''f'', ''g'']]" 4300 "''t.csv''"]
  by (simp add: celulas_def celulas_da_linha_def linhas_bem_formadas_def strip_def
      py_isspace_def codigo_def)

section \<open>The strings that are integers\<close>

lemma dividir_nao_vazio: "dividir sep u \<noteq> []"
  by (induction u) (auto split: list.splits)

lemma grupos_apos_Nil: "grupos_apos b [] = b"
  by (simp add: grupos_apos_def)

lemma grupos_apos_sublinhado:
  "grupos_apos b (CHR ''_'' # cs) = (b \<and> grupos_apos False cs)"
  using dividir_nao_vazio [of "CHR ''_''" cs]
  by (auto simp: grupos_apos_def grupo_de_digitos_def split: list.splits)

lemma grupos_apos_digito:
  "is_digit c \<Longrightarrow> c \<noteq> CHR ''_'' \<Longrightarrow> grupos_apos b (c # cs) = grupos_apos True cs"
  using dividir_nao_vazio [of "CHR ''_''" cs]
  by (auto simp: grupos_apos_def split: list.splits)

lemma grupos_apos_outro:
  "\<not> is_digit c \<Longrightarrow> c \<noteq> CHR ''_'' \<Longrightarrow> grupos_apos b (c # cs) = False"
  using dividir_nao_vazio [of "CHR ''_''" cs]
  by (auto simp: grupos_apos_def split: list.splits)

lemma sublinhado_nao_digito: "\<not> is_digit (CHR ''_'')"
  by (simp add: is_digit_def codigo_def)

lemma literal_grupos: "literal_inteiro s = grupos_apos False (sem_sinal s)"
  using dividir_nao_vazio [of "CHR ''_''" "sem_sinal s"]
  by (auto simp: literal_inteiro_def grupos_apos_def grupo_de_digitos_def split: list.splits)

lemma varrer_grupos:
  assumes "prev = CHR ''_'' \<or> is_digit prev"
  shows "aceita lim (varrer prev d u) =
           (grupos_apos (is_digit prev) u \<and> \<not> excede_limite lim (d + numero_de_digitos u))"
  using assms
proof (induction u arbitrary: prev d)
  case Nil
  then show ?case
    using sublinhado_nao_digito by (auto simp: aceita_def grupos_apos_Nil numero_de_digitos_def)
next
  case (Cons c cs)
  show ?case
  proof (cases "c = CHR ''_''")
    case True
    show ?thesis
    proof (cases "prev = CHR ''_''")
      case p: True
      then show ?thesis
        using True sublinhado_nao_digito by (simp add: aceita_def grupos_apos_sublinhado)
    next
      case False
      then have dp: "is_digit prev" using Cons.prems by simp
      have "aceita lim (varrer c d cs) =
              (grupos_apos (is_digit c) cs \<and> \<not> excede_limite lim (d + numero_de_digitos cs))"
        using Cons.IH [of c d] True by simp
      then show ?thesis
        using True False dp sublinhado_nao_digito
        by (simp add: grupos_apos_sublinhado numero_de_digitos_def)
    qed
  next
    case False
    show ?thesis
    proof (cases "is_digit c")
      case True
      have "aceita lim (varrer c (Suc d) cs) =
              (grupos_apos (is_digit c) cs \<and> \<not> excede_limite lim (Suc d + numero_de_digitos cs))"
        using Cons.IH [of c "Suc d"] True by simp
      then show ?thesis
        using True False by (simp add: grupos_apos_digito numero_de_digitos_def)
    next
      case nd: False
      then show ?thesis
        using False by (simp add: aceita_def grupos_apos_outro)
    qed
  qed
qed

lemma varrer_resto:
  "varrer prev d u = Some (d', p', r) \<Longrightarrow>
   \<exists>pre. u = pre @ r \<and> (\<forall>x\<in>set pre. is_digit x \<or> x = CHR ''_'')"
proof (induction u arbitrary: prev d)
  case Nil
  then show ?case by simp
next
  case (Cons c cs)
  show ?case
  proof (cases "c = CHR ''_'' \<or> is_digit c")
    case True
    then obtain prev1 d1 where "varrer prev1 d1 cs = Some (d', p', r)"
      using Cons.prems by (auto split: if_splits)
    then obtain pre where "cs = pre @ r" "\<forall>x\<in>set pre. is_digit x \<or> x = CHR ''_''"
      using Cons.IH by blast
    then have "c # cs = (c # pre) @ r \<and> (\<forall>x\<in>set (c # pre). is_digit x \<or> x = CHR ''_'')"
      using True by auto
    then show ?thesis by (intro exI)
  next
    case False
    then have "r = c # cs" using Cons.prems by simp
    then have "c # cs = [] @ r \<and> (\<forall>x\<in>set []. is_digit x \<or> x = CHR ''_'')" by simp
    then show ?thesis by (intro exI)
  qed
qed

lemma resto_com_estranho:
  assumes "varrer prev d u = Some (d', p', r)"
    and "x \<in> set u" and "\<not> is_digit x" and "x \<noteq> CHR ''_''"
    and "u \<noteq> []" and "\<not> c_isspace (last u)"
  shows "dropWhile c_isspace r \<noteq> []"
proof -
  obtain pre where pre: "u = pre @ r" "\<forall>x\<in>set pre. is_digit x \<or> x = CHR ''_''"
    using varrer_resto [OF assms(1)] by blast
  have "x \<in> set r" using assms(2,3,4) pre by auto
  then have rn: "r \<noteq> []" by auto
  then have "last r = last u" using pre(1) by simp
  then have "\<not> c_isspace (last r)" using assms(6) by simp
  then have "\<exists>y\<in>set r. \<not> c_isspace y" using rn last_in_set by blast
  then show ?thesis by (simp add: dropWhile_eq_Nil_conv)
qed

lemma resto_sem_branco_final:
  assumes "varrer prev d u = Some (d', p', r)" and "u \<noteq> []" and "\<not> c_isspace (last u)"
  shows "(dropWhile c_isspace r = []) = (r = [])"
proof (cases "r = []")
  case True
  then show ?thesis by simp
next
  case False
  obtain pre where pre: "u = pre @ r" using varrer_resto [OF assms(1)] by blast
  then have "last r = last u" using False by simp
  then have "\<exists>y\<in>set r. \<not> c_isspace y" using False assms(3) last_in_set by metis
  then show ?thesis using False by (simp add: dropWhile_eq_Nil_conv)
qed

lemma grupos_caracteres:
  "grupos_apos b u \<Longrightarrow> \<forall>x\<in>set u. is_digit x \<or> x = CHR ''_''"
proof (induction u arbitrary: b)
  case Nil
  then show ?case by simp
next
  case (Cons c cs)
  show ?case
  proof (cases "c = CHR ''_''")
    case True
    then have "grupos_apos False cs" using Cons.prems by (simp add: grupos_apos_sublinhado)
    then show ?thesis using Cons.IH True by simp
  next
    case False
    show ?thesis
    proof (cases "is_digit c")
      case True
      then have "grupos_apos True cs" using Cons.prems False by (simp add: grupos_apos_digito)
      then show ?thesis using Cons.IH True by simp
    next
      case nd: False
      then show ?thesis using Cons.prems False by (simp add: grupos_apos_outro)
    qed
  qed
qed

lemma base_desdobrar:
  "str \<noteq> [] \<Longrightarrow>
   long_from_string_base lim str =
     (hd str \<noteq> CHR ''_'' \<and>
      (case varrer (CHR 0x00) 0 str of
         None \<Rightarrow> False
       | Some (digits, prev, resto) \<Rightarrow>
           prev \<noteq> CHR ''_'' \<and> resto \<noteq> str \<and> dropWhile c_isspace resto = [] \<and>
           \<not> excede_limite lim digits))"
  by (cases str) (auto simp: long_from_string_base_def split: option.splits simp del: varrer.simps)

lemma base_grupos:
  assumes "str \<noteq> []" and "\<not> c_isspace (last str)"
  shows "long_from_string_base lim str =
           (grupos_apos False str \<and> \<not> excede_limite lim (numero_de_digitos str))"
proof -
  obtain c cs where str: "str = c # cs" using assms(1) by (cases str) auto
  show ?thesis
  proof (cases "c = CHR ''_''")
    case True
    then show ?thesis by (simp add: str long_from_string_base_def grupos_apos_sublinhado)
  next
    case False
    show ?thesis
    proof (cases "is_digit c")
      case nd: False
      then show ?thesis using False
        by (simp add: str long_from_string_base_def grupos_apos_outro)
    next
      case True
      have v: "varrer (CHR 0x00) 0 str = varrer c (Suc 0) cs"
        using True False by (simp add: str)
      have g: "aceita lim (varrer c (Suc 0) cs) =
                 (grupos_apos True cs \<and> \<not> excede_limite lim (Suc 0 + numero_de_digitos cs))"
        using varrer_grupos [of c lim "Suc 0" cs] True by simp
      have rhs: "(grupos_apos False str \<and> \<not> excede_limite lim (numero_de_digitos str)) =
                 aceita lim (varrer c (Suc 0) cs)"
        unfolding g using True False
        by (simp add: str grupos_apos_digito numero_de_digitos_def)
      have lhs: "long_from_string_base lim str = aceita lim (varrer c (Suc 0) cs)"
      proof (cases "varrer c (Suc 0) cs")
        case None
        then show ?thesis using v assms(1) by (simp add: base_desdobrar aceita_def)
      next
        case (Some t)
        obtain d' p' r where t: "t = (d', p', r)" by (cases t)
        have vs: "varrer (CHR 0x00) 0 str = Some (d', p', r)" using v Some t by simp
        have vazio: "(dropWhile c_isspace r = []) = (r = [])"
          using resto_sem_branco_final [OF vs assms] .
        obtain pre where "cs = pre @ r" using varrer_resto [of c "Suc 0" cs d' p' r] Some t by auto
        then have "length r < length str" by (simp add: str)
        then have dif: "r \<noteq> str" by auto
        have "hd str \<noteq> CHR ''_''" using False by (simp add: str)
        then show ?thesis
          using vs Some t dif vazio assms(1)
          by (auto simp: base_desdobrar aceita_def)
      qed
      show ?thesis using lhs rhs by simp
    qed
  qed
qed

lemma base_com_estranho:
  assumes "x \<in> set str" and "\<not> is_digit x" and "x \<noteq> CHR ''_''"
    and "\<not> c_isspace (last str)"
  shows "\<not> long_from_string_base lim str"
proof -
  have ne: "str \<noteq> []" using assms(1) by auto
  then obtain c cs where str: "str = c # cs" by (cases str) auto
  show ?thesis
  proof (cases "varrer (CHR 0x00) 0 str")
    case None
    then show ?thesis using ne by (simp add: base_desdobrar)
  next
    case (Some t)
    obtain d' p' r where t: "t = (d', p', r)" by (cases t)
    have "dropWhile c_isspace r \<noteq> []"
      using resto_com_estranho [of "CHR 0x00" 0 str d' p' r x] Some t assms ne by simp
    then show ?thesis using Some t ne by (simp add: base_desdobrar)
  qed
qed

lemma c_isspace_py: "c_isspace c \<Longrightarrow> py_isspace c"
  by (auto simp: c_isspace_def py_isspace_def)

lemma last_dropWhile: "dropWhile P xs \<noteq> [] \<Longrightarrow> last (dropWhile P xs) = last xs"
  by (metis last_appendR takeWhile_dropWhile_id)

lemma strip_extremos:
  assumes "strip v \<noteq> []"
  shows "\<not> py_isspace (hd (strip v))" and "\<not> py_isspace (last (strip v))"
proof -
  let ?w = "dropWhile py_isspace v"
  let ?z = "dropWhile py_isspace (rev ?w)"
  have z: "?z \<noteq> []" using assms by (simp add: strip_def)
  have w: "?w \<noteq> []"
  proof
    assume e: "?w = []"
    have "?z = []" unfolding e by simp
    then show False using z by simp
  qed
  have "last (strip v) = hd ?z" using z by (simp add: strip_def last_rev)
  then show "\<not> py_isspace (last (strip v))" using z hd_dropWhile [of py_isspace "rev ?w"] by simp
  have "hd (strip v) = last ?z" using z by (simp add: strip_def hd_rev)
  also have "\<dots> = last (rev ?w)" using z by (rule last_dropWhile)
  also have "\<dots> = hd ?w" using w by (simp add: last_rev)
  finally show "\<not> py_isspace (hd (strip v))" using w hd_dropWhile [of py_isspace v] by simp
qed

lemma sem_sinal_casos:
  "sem_sinal s = s \<or> (\<exists>c. (c = CHR ''+'' \<or> c = CHR ''-'') \<and> s = c # sem_sinal s)"
  by (cases s) (auto simp: sem_sinal_def)

lemma sinais_nao_digitos: "\<not> is_digit (CHR ''+'')" "\<not> is_digit (CHR ''-'')"
  by (simp_all add: is_digit_def codigo_def)

lemma numero_de_digitos_sem_sinal: "numero_de_digitos (sem_sinal s) = numero_de_digitos s"
  using sem_sinal_casos [of s] sinais_nao_digitos
  by (auto simp: numero_de_digitos_def) (metis filter.simps(2))+

lemma last_sem_sinal: "sem_sinal s \<noteq> [] \<Longrightarrow> last (sem_sinal s) = last s"
  using sem_sinal_casos [of s] by (metis last_ConsR)

lemma dropWhile_inicio: "s \<noteq> [] \<Longrightarrow> \<not> P (hd s) \<Longrightarrow> dropWhile P s = s"
  by (cases s) auto

lemma transformar_nao_vazio: "s \<noteq> [] \<Longrightarrow> transformar s \<noteq> []"
  by (cases s) auto

lemma branco_c: "c_isspace (CHR '' '')" "\<not> c_isspace (CHR ''?'')"
  by (simp_all add: c_isspace_def codigo_def)

lemma hd_transformar:
  "s \<noteq> [] \<Longrightarrow> \<not> py_isspace (hd s) \<Longrightarrow> \<not> c_isspace (hd (transformar s))"
  using c_isspace_py branco_c by (cases s) auto

lemma last_transformar:
  "s \<noteq> [] \<Longrightarrow> \<not> py_isspace (last s) \<Longrightarrow> \<not> c_isspace (last (transformar s))"
proof (induction s)
  case Nil
  then show ?case by simp
next
  case (Cons c cs)
  show ?case
  proof (cases "cs = []")
    case True
    then show ?thesis using Cons.prems c_isspace_py branco_c by auto
  next
    case False
    then have "\<not> c_isspace (last (transformar cs))" using Cons by simp
    then show ?thesis using False transformar_nao_vazio [OF False] branco_c by simp
  qed
qed

lemma estranho_transformar:
  "\<not> list_all (\<lambda>c. codigo c < 128) s \<Longrightarrow>
   \<exists>x\<in>set (transformar s). x = CHR '' '' \<or> x = CHR ''?''"
  by (induction s) auto

lemma estranho_classes:
  assumes "x = CHR '' '' \<or> x = CHR ''?''"
  shows "\<not> is_digit x" "x \<noteq> CHR ''_''" "x \<noteq> CHR ''+''" "x \<noteq> CHR ''-''"
  using assms by (auto simp: is_digit_def codigo_def)

lemma set_sem_sinal:
  "x \<in> set s \<Longrightarrow> x \<noteq> CHR ''+'' \<Longrightarrow> x \<noteq> CHR ''-'' \<Longrightarrow> x \<in> set (sem_sinal s)"
  by (cases s) (auto simp: sem_sinal_def)

lemma digito_ascii: "is_digit x \<or> x = CHR ''_'' \<or> x = CHR ''+'' \<or> x = CHR ''-'' \<Longrightarrow> codigo x < 128"
  by (auto simp: is_digit_def codigo_def)

lemma literal_ascii:
  assumes "literal_inteiro s"
  shows "list_all (\<lambda>c. codigo c < 128) s"
proof -
  have g: "\<forall>x\<in>set (sem_sinal s). is_digit x \<or> x = CHR ''_''"
    using assms grupos_caracteres by (simp add: literal_grupos)
  have "\<forall>x\<in>set s. is_digit x \<or> x = CHR ''_'' \<or> x = CHR ''+'' \<or> x = CHR ''-''"
    using g sem_sinal_casos [of s] by (metis set_ConsD)
  then show ?thesis using digito_ascii by (auto simp: list_all_iff)
qed

lemma int_ok_aparado:
  assumes ne: "s \<noteq> []" and ini: "\<not> py_isspace (hd s)" and fim: "\<not> py_isspace (last s)"
  shows "py_int_ok lim s = (literal_inteiro s \<and> \<not> excede_limite lim (numero_de_digitos s))"
proof (cases "list_all (\<lambda>c. codigo c < 128) s")
  case True
  then have pa: "para_ascii s = s" by (simp add: para_ascii_def)
  have "\<not> c_isspace (hd s)" using ini c_isspace_py by blast
  then have dw: "dropWhile c_isspace s = s" using ne by (simp add: dropWhile_inicio)
  have ok: "py_int_ok lim s = long_from_string_base lim (sem_sinal s)"
    by (simp add: py_int_ok_def pa dw)
  show ?thesis
  proof (cases "sem_sinal s = []")
    case vazio: True
    then show ?thesis
      by (simp add: ok long_from_string_base_def literal_grupos grupos_apos_Nil)
  next
    case False
    have "\<not> c_isspace (last (sem_sinal s))"
      using last_sem_sinal [OF False] fim c_isspace_py by auto
    then show ?thesis
      using base_grupos [OF False, of lim]
      by (simp add: ok literal_grupos numero_de_digitos_sem_sinal)
  qed
next
  case False
  then have pa: "para_ascii s = transformar s" by (simp add: para_ascii_def)
  let ?t = "transformar s"
  have tne: "?t \<noteq> []" using ne by (rule transformar_nao_vazio)
  have "\<not> c_isspace (hd ?t)" using ne ini by (rule hd_transformar)
  then have dw: "dropWhile c_isspace ?t = ?t" using tne by (simp add: dropWhile_inicio)
  obtain x where x: "x \<in> set ?t" "x = CHR '' '' \<or> x = CHR ''?''"
    using estranho_transformar [OF False] by blast
  note xc = estranho_classes [OF x(2)]
  have xs: "x \<in> set (sem_sinal ?t)" using x(1) xc(3,4) by (rule set_sem_sinal)
  then have sne: "sem_sinal ?t \<noteq> []" by auto
  have "\<not> c_isspace (last (sem_sinal ?t))"
    using last_sem_sinal [OF sne] last_transformar [OF ne fim] by simp
  then have "\<not> long_from_string_base lim (sem_sinal ?t)"
    using base_com_estranho [OF xs xc(1,2)] by blast
  then have "\<not> py_int_ok lim s" by (simp add: py_int_ok_def pa dw)
  moreover have "\<not> literal_inteiro s" using literal_ascii False by blast
  ultimately show ?thesis by simp
qed

lemma inferir_int: "(inferir_tipo_dado lim s = ''int'') = (s \<noteq> [] \<and> py_int_ok lim s)"
  by (simp add: inferir_tipo_dado_def)

lemma literal_vazio: "\<not> literal_inteiro []"
  by (simp add: literal_grupos grupos_apos_Nil sem_sinal_def)

lemma inteiro_aparado:
  "(inferir_tipo_dado lim (strip v) = ''int'') =
     (literal_inteiro (strip v) \<and> \<not> excede_limite lim (numero_de_digitos (strip v)))"
proof (cases "strip v = []")
  case True
  then show ?thesis by (simp add: inferir_int literal_vazio)
next
  case False
  then show ?thesis
    using int_ok_aparado [OF False strip_extremos [OF False], of lim]
    by (simp add: inferir_int)
qed

lemma so_digitos_literal: "so_digitos s \<Longrightarrow> literal_inteiro s"
proof -
  have "u \<noteq> [] \<Longrightarrow> list_all is_digit u \<Longrightarrow> grupos_apos b u" for u b
  proof (induction u arbitrary: b)
    case Nil
    then show ?case by simp
  next
    case (Cons c cs)
    then have c: "is_digit c" "c \<noteq> CHR ''_''" using sublinhado_nao_digito by auto
    show ?case
    proof (cases "cs = []")
      case True
      then show ?thesis using c by (simp add: grupos_apos_digito grupos_apos_Nil)
    next
      case False
      then show ?thesis using c Cons by (simp add: grupos_apos_digito)
    qed
  qed
  then show "so_digitos s \<Longrightarrow> literal_inteiro s"
    by (simp add: so_digitos_def literal_grupos)
qed

text \<open>
  Claim C7 as the specification states it fails: \<^verbatim>\<open>"1_000"\<close> has a separator between
  its digits and is classified as an integer.
\<close>

theorem inteiro_so_digitos_contraexemplo:
  "inferir_tipo_dado 4300 (strip ''1_000'') = ''int'' \<and> \<not> so_digitos (strip ''1_000'')"
  by code_simp

section \<open>Integers among the strings of all code points\<close>

lemma codigo_char_of_nat: "n < 256 \<Longrightarrow> codigo (char_of (n::nat)) = n"
  by (simp add: codigo_def)

lemma char_of_igual: "n < 256 \<Longrightarrow> (char_of (n::nat) = c) = (n = codigo c)"
  by (auto simp: codigo_def char_of_eq_iff take_bit_eq_mod)

lemma todecimal_limite: "uni_todecimal dec ch = Some d \<Longrightarrow> d \<le> 9"
  by (auto simp: uni_todecimal_def split: if_splits option.splits)

lemma todecimal_digito:
  "128 \<le> ch \<Longrightarrow> (uni_todecimal dec ch \<noteq> None) = (case dec ch of None \<Rightarrow> False | Some d \<Rightarrow> d \<le> 9)"
  by (auto simp: uni_todecimal_def split: option.splits)

lemma traduz_casos:
  obtains (ascii) "ch < 128" "traduz esp dec ch = char_of ch"
  | (branco) "128 \<le> ch" "esp ch" "traduz esp dec ch = CHR '' ''"
  | (digito) d where "128 \<le> ch" "\<not> esp ch" "uni_todecimal dec ch = Some d" "d \<le> 9"
      "traduz esp dec ch = char_of (48 + d)"
  | (outro) "128 \<le> ch" "\<not> esp ch" "uni_todecimal dec ch = None" "traduz esp dec ch = CHR ''?''"
proof (cases "ch < 128")
  case True
  then show ?thesis using ascii by (simp add: traduz_def)
next
  case False
  show ?thesis
  proof (cases "esp ch")
    case True
    then show ?thesis using False branco by (simp add: traduz_def)
  next
    case ne: False
    show ?thesis
    proof (cases "uni_todecimal dec ch")
      case None
      then show ?thesis using False ne outro by (simp add: traduz_def)
    next
      case (Some d)
      then show ?thesis using False ne digito [of d] todecimal_limite [OF Some]
        by (simp add: traduz_def)
    qed
  qed
qed

lemma traduz_igual:
  assumes "codigo c < 128" and "c \<noteq> CHR '' ''" and "c \<noteq> CHR ''?''" and "\<not> is_digit c"
  shows "(traduz esp dec ch = c) = (ch = codigo c)"
proof (cases rule: traduz_casos [where ch = ch and esp = esp and dec = dec])
  case ascii
  then show ?thesis by (simp add: char_of_igual)
next
  case branco
  then show ?thesis using assms by auto
next
  case (digito d)
  have "is_digit (char_of (48 + d))" using digito(4) by (simp add: is_digit_def codigo_char_of_nat)
  then show ?thesis using digito assms by auto
next
  case outro
  then show ?thesis using assms by auto
qed

lemma traduz_sinais:
  "(traduz esp dec ch = CHR ''_'') = (ch = 95)"
  "(traduz esp dec ch = CHR ''+'') = (ch = 43)"
  "(traduz esp dec ch = CHR ''-'') = (ch = 45)"
  "(traduz esp dec ch = CHR 0x7F) = (ch = 127)"
  by (simp_all add: traduz_igual codigo_def is_digit_def)

lemma traduz_digito: "is_digit (traduz esp dec ch) = digito_decimal esp dec ch"
proof (cases rule: traduz_casos [where ch = ch and esp = esp and dec = dec])
  case ascii
  then show ?thesis by (simp add: is_digit_def codigo_char_of_nat digito_decimal_def)
next
  case branco
  then show ?thesis by (simp add: is_digit_def codigo_def digito_decimal_def)
next
  case (digito d)
  then show ?thesis using todecimal_digito [of ch dec]
    by (simp add: is_digit_def codigo_char_of_nat digito_decimal_def)
next
  case outro
  then show ?thesis using todecimal_digito [of ch dec]
    by (simp add: is_digit_def codigo_def digito_decimal_def)
qed

lemma dividir_map:
  assumes "\<And>x. (f x = f sep) = (x = sep)"
  shows "dividir (f sep) (map f u) = map (map f) (dividir sep u)"
proof (induction u)
  case Nil
  then show ?case by simp
next
  case (Cons c cs)
  then show ?case using assms by (auto split: list.splits)
qed

lemma dividir_traduz:
  "dividir (CHR ''_'') (map (traduz esp dec) u) = map (map (traduz esp dec)) (dividir 95 u)"
proof -
  have s: "traduz esp dec 95 = CHR ''_''" using traduz_sinais(1) [of esp dec 95] by simp
  have "(traduz esp dec x = traduz esp dec 95) = (x = 95)" for x
    unfolding s by (rule traduz_sinais(1))
  then have "dividir (traduz esp dec 95) (map (traduz esp dec) u) =
             map (map (traduz esp dec)) (dividir 95 u)"
    by (rule dividir_map)
  then show ?thesis unfolding s .
qed

lemma sem_sinal_traduz:
  "sem_sinal (map (traduz esp dec) s) = map (traduz esp dec) (sem_sinal_u s)"
  by (cases s) (auto simp: sem_sinal_def sem_sinal_u_def traduz_sinais)

lemma grupo_traduz:
  "grupo_de_digitos (map (traduz esp dec) g) = grupo_decimal esp dec g"
  by (simp add: grupo_de_digitos_def grupo_decimal_def list_all_iff traduz_digito)

lemma literal_traduz:
  "literal_inteiro (map (traduz esp dec) s) = literal_inteiro_u esp dec s"
  by (simp add: literal_inteiro_def literal_inteiro_u_def sem_sinal_traduz dividir_traduz
      list_all_iff grupo_traduz)

lemma digitos_traduz:
  "numero_de_digitos (map (traduz esp dec) s) = numero_de_digitos_u esp dec s"
  by (simp add: numero_de_digitos_def numero_de_digitos_u_def filter_map comp_def traduz_digito)

lemma transformar_boa:
  "list_all (boa esp dec) s \<Longrightarrow> transformar_u esp dec s = map (traduz esp dec) s"
proof (induction s)
  case Nil
  then show ?case by simp
next
  case (Cons ch r)
  then have r: "transformar_u esp dec r = map (traduz esp dec) r" by simp
  have b: "boa esp dec ch" using Cons.prems by simp
  show ?case
  proof (cases "ch < 127")
    case True
    then show ?thesis using r by (simp add: traduz_def)
  next
    case False
    then have g: "128 \<le> ch" "esp ch \<or> uni_todecimal dec ch \<noteq> None" using b by (auto simp: boa_def)
    then show ?thesis using False r
      by (auto simp: traduz_def uni_isspace_def split: option.splits)
  qed
qed

lemma para_ascii_boa:
  assumes "list_all (boa esp dec) s"
  shows "para_ascii_u esp dec s = map (traduz esp dec) s"
proof (cases "list_all (\<lambda>ch. ch < 128) s")
  case True
  then have "map char_of s = map (traduz esp dec) s"
    by (simp add: list_all_iff traduz_def)
  then show ?thesis using True by (simp add: para_ascii_u_def)
next
  case False
  then show ?thesis using transformar_boa [OF assms] by (simp add: para_ascii_u_def)
qed

lemma transformar_ruim:
  "\<not> list_all (boa esp dec) s \<Longrightarrow> CHR ''?'' \<in> set (transformar_u esp dec s)"
proof (induction s)
  case Nil
  then show ?case by simp
next
  case (Cons ch r)
  show ?case
  proof (cases "boa esp dec ch")
    case True
    then have "CHR ''?'' \<in> set (transformar_u esp dec r)" using Cons by simp
    then show ?thesis by (auto split: option.splits)
  next
    case False
    then have "\<not> ch < 127" "\<not> uni_isspace esp ch" "uni_todecimal dec ch = None"
      by (auto simp: boa_def uni_isspace_def uni_todecimal_def)
    then show ?thesis by simp
  qed
qed

lemma para_ascii_ruim:
  assumes "\<not> list_all (boa esp dec) s"
  shows "\<exists>x\<in>set (para_ascii_u esp dec s). x = CHR ''?'' \<or> x = CHR 0x7F"
proof (cases "list_all (\<lambda>ch. ch < 128) s")
  case True
  obtain ch where ch: "ch \<in> set s" "\<not> boa esp dec ch" using assms by (auto simp: list_all_iff)
  then have "ch < 128" using True by (simp add: list_all_iff)
  then have "ch = 127" using ch(2) by (auto simp: boa_def)
  then have "char_of (127::nat) \<in> set (map char_of s)" using ch(1) by force
  moreover have "char_of (127::nat) = CHR 0x7F" by (simp add: char_of_igual codigo_def)
  ultimately show ?thesis using True by (auto simp: para_ascii_u_def)
next
  case False
  then show ?thesis using transformar_ruim [OF assms] by (auto simp: para_ascii_u_def)
qed

lemma c_isspace_char_of:
  "ch < 128 \<Longrightarrow> c_isspace (char_of ch) \<Longrightarrow> uni_isspace esp ch"
  by (auto simp: c_isspace_def uni_isspace_def codigo_char_of_nat)

lemma digito_nao_branco: "d \<le> (9::nat) \<Longrightarrow> \<not> c_isspace (char_of (48 + d))"
  by (simp add: c_isspace_def codigo_char_of_nat)

lemma transformar_u_nao_vazio: "s \<noteq> [] \<Longrightarrow> transformar_u esp dec s \<noteq> []"
  by (cases s) (auto split: option.splits)

lemma primeiro_transformar_u:
  "\<not> uni_isspace esp ch \<Longrightarrow> \<not> c_isspace (hd (transformar_u esp dec (ch # r)))"
  using c_isspace_char_of [of ch esp] branco_c(2) digito_nao_branco todecimal_limite
  by (auto split: option.splits)

lemma hd_transformar_u:
  "s \<noteq> [] \<Longrightarrow> \<not> uni_isspace esp (hd s) \<Longrightarrow> \<not> c_isspace (hd (transformar_u esp dec s))"
  using primeiro_transformar_u by (cases s) auto

lemma last_transformar_u:
  "s \<noteq> [] \<Longrightarrow> \<not> uni_isspace esp (last s) \<Longrightarrow> \<not> c_isspace (last (transformar_u esp dec s))"
proof (induction s)
  case Nil
  then show ?case by simp
next
  case (Cons ch r)
  show ?case
  proof (cases "r = []")
    case True
    then have "\<not> uni_isspace esp ch" using Cons.prems by simp
    then have "\<not> c_isspace (hd (transformar_u esp dec (ch # r)))" by (rule primeiro_transformar_u)
    then show ?thesis using True by (auto split: option.splits if_splits)
  next
    case False
    then have "\<not> c_isspace (last (transformar_u esp dec r))" using Cons by simp
    then show ?thesis using transformar_u_nao_vazio [OF False, of esp dec] branco_c(2)
      by (auto split: option.splits)
  qed
qed

lemma extremos_para_ascii:
  assumes "s \<noteq> []" and "\<not> uni_isspace esp (hd s)" and "\<not> uni_isspace esp (last s)"
  shows "para_ascii_u esp dec s \<noteq> []"
    and "\<not> c_isspace (hd (para_ascii_u esp dec s))"
    and "\<not> c_isspace (last (para_ascii_u esp dec s))"
proof -
  show "para_ascii_u esp dec s \<noteq> []"
    using assms(1) transformar_u_nao_vazio by (simp add: para_ascii_u_def)
  show "\<not> c_isspace (hd (para_ascii_u esp dec s))"
  proof (cases "list_all (\<lambda>ch. ch < 128) s")
    case True
    then have "hd s < 128" using assms(1) by (simp add: list_all_iff)
    then have "\<not> c_isspace (char_of (hd s))" using assms(2) c_isspace_char_of by blast
    then show ?thesis using True assms(1) by (simp add: para_ascii_u_def hd_map)
  next
    case False
    then show ?thesis using hd_transformar_u [OF assms(1,2)] by (simp add: para_ascii_u_def)
  qed
  show "\<not> c_isspace (last (para_ascii_u esp dec s))"
  proof (cases "list_all (\<lambda>ch. ch < 128) s")
    case True
    then have "last s < 128" using assms(1) by (simp add: list_all_iff)
    then have "\<not> c_isspace (char_of (last s))" using assms(3) c_isspace_char_of by blast
    then show ?thesis using True assms(1) by (simp add: para_ascii_u_def last_map)
  next
    case False
    then show ?thesis using last_transformar_u [OF assms(1,3)] by (simp add: para_ascii_u_def)
  qed
qed

lemma buffer_aparado:
  assumes "t \<noteq> []" and "\<not> c_isspace (hd t)" and "\<not> c_isspace (last t)"
  shows "long_from_string_base lim (sem_sinal (dropWhile c_isspace t)) =
           (literal_inteiro t \<and> \<not> excede_limite lim (numero_de_digitos t))"
proof -
  have dw: "dropWhile c_isspace t = t" using assms(1,2) by (simp add: dropWhile_inicio)
  show ?thesis
  proof (cases "sem_sinal t = []")
    case True
    then show ?thesis
      by (simp add: dw long_from_string_base_def literal_grupos grupos_apos_Nil)
  next
    case False
    have "\<not> c_isspace (last (sem_sinal t))" using last_sem_sinal [OF False] assms(3) by simp
    then show ?thesis
      using base_grupos [OF False, of lim]
      by (simp add: dw literal_grupos numero_de_digitos_sem_sinal)
  qed
qed

lemma literal_caracteres:
  assumes "literal_inteiro t"
  shows "\<forall>x\<in>set t. is_digit x \<or> x = CHR ''_'' \<or> x = CHR ''+'' \<or> x = CHR ''-''"
proof -
  have g: "\<forall>x\<in>set (sem_sinal t). is_digit x \<or> x = CHR ''_''"
    using assms grupos_caracteres by (simp add: literal_grupos)
  show ?thesis using g sem_sinal_casos [of t] by (metis set_ConsD)
qed

lemma estranhos_fora:
  "is_digit x \<or> x = CHR ''_'' \<or> x = CHR ''+'' \<or> x = CHR ''-'' \<Longrightarrow> x \<noteq> CHR ''?'' \<and> x \<noteq> CHR 0x7F"
  by (auto simp: is_digit_def codigo_def)

lemma literal_buffer:
  "literal_inteiro (para_ascii_u esp dec s) = literal_inteiro_u esp dec s"
  "literal_inteiro_u esp dec s \<Longrightarrow>
     numero_de_digitos (para_ascii_u esp dec s) = numero_de_digitos_u esp dec s"
proof -
  have ida: "list_all (boa esp dec) s" if "literal_inteiro (para_ascii_u esp dec s)"
  proof (rule ccontr)
    assume "\<not> list_all (boa esp dec) s"
    then obtain x where "x \<in> set (para_ascii_u esp dec s)" "x = CHR ''?'' \<or> x = CHR 0x7F"
      using para_ascii_ruim by blast
    then show False using literal_caracteres [OF that] estranhos_fora by blast
  qed
  have volta: "list_all (boa esp dec) s" if "literal_inteiro_u esp dec s"
  proof -
    have "literal_inteiro (map (traduz esp dec) s)" using that by (simp add: literal_traduz)
    then have "\<forall>ch\<in>set s. is_digit (traduz esp dec ch) \<or> traduz esp dec ch = CHR ''_'' \<or>
                  traduz esp dec ch = CHR ''+'' \<or> traduz esp dec ch = CHR ''-''"
      using literal_caracteres by fastforce
    then have "\<forall>ch\<in>set s. digito_decimal esp dec ch \<or> ch = 95 \<or> ch = 43 \<or> ch = 45"
      by (simp add: traduz_digito traduz_sinais)
    then have "\<forall>ch\<in>set s. boa esp dec ch"
      using todecimal_digito [of _ dec] by (auto simp: boa_def digito_decimal_def)
    then show ?thesis by (simp add: list_all_iff)
  qed
  show "literal_inteiro (para_ascii_u esp dec s) = literal_inteiro_u esp dec s"
    using ida volta para_ascii_boa [of esp dec s] literal_traduz [of esp dec s] by auto
  show "literal_inteiro_u esp dec s \<Longrightarrow>
     numero_de_digitos (para_ascii_u esp dec s) = numero_de_digitos_u esp dec s"
    using volta para_ascii_boa [of esp dec s] digitos_traduz [of esp dec s] by auto
qed

lemma extremos_aparados:
  assumes "rev (dropWhile P (rev (dropWhile P v))) \<noteq> []"
  shows "\<not> P (hd (rev (dropWhile P (rev (dropWhile P v)))))"
    and "\<not> P (last (rev (dropWhile P (rev (dropWhile P v)))))"
proof -
  let ?w = "dropWhile P v"
  let ?z = "dropWhile P (rev ?w)"
  have z: "?z \<noteq> []" using assms by simp
  have w: "?w \<noteq> []"
  proof
    assume e: "?w = []"
    have "?z = []" unfolding e by simp
    then show False using z by simp
  qed
  have "last (rev ?z) = hd ?z" using z by (simp add: last_rev)
  then show "\<not> P (last (rev ?z))" using z hd_dropWhile [of P "rev ?w"] by simp
  have "hd (rev ?z) = last ?z" using z by (simp add: hd_rev)
  also have "\<dots> = last (rev ?w)" using z by (rule last_dropWhile)
  also have "\<dots> = hd ?w" using w by (simp add: last_rev)
  finally show "\<not> P (hd (rev ?z))" using w hd_dropWhile [of P v] by simp
qed

lemma inferir_int_u:
  "(inferir_tipo_dado_u lim esp dec s = ''int'') = (s \<noteq> [] \<and> py_int_ok_u lim esp dec s)"
  by (simp add: inferir_tipo_dado_u_def)

lemma literal_u_vazio: "\<not> literal_inteiro_u esp dec []"
  by (simp add: literal_inteiro_u_def sem_sinal_u_def grupo_decimal_def)

lemma inteiro_unicode:
  "(inferir_tipo_dado_u lim esp dec (strip_u esp v) = ''int'') =
     (literal_inteiro_u esp dec (strip_u esp v) \<and>
      \<not> excede_limite lim (numero_de_digitos_u esp dec (strip_u esp v)))"
proof (cases "strip_u esp v = []")
  case True
  then show ?thesis by (simp add: inferir_int_u literal_u_vazio)
next
  case False
  let ?s = "strip_u esp v"
  have e: "\<not> uni_isspace esp (hd ?s)" "\<not> uni_isspace esp (last ?s)"
    using extremos_aparados [of "uni_isspace esp" v] False by (simp_all add: strip_u_def)
  note t = extremos_para_ascii [OF False e, of dec]
  have "py_int_ok_u lim esp dec ?s =
          (literal_inteiro (para_ascii_u esp dec ?s) \<and>
           \<not> excede_limite lim (numero_de_digitos (para_ascii_u esp dec ?s)))"
    unfolding py_int_ok_u_def by (rule buffer_aparado [OF t])
  then show ?thesis
    using False literal_buffer [of esp dec ?s] by (auto simp: inferir_int_u)
qed

section \<open>The two models agree below 256\<close>

text \<open>
  On a string of the first model, read as the list of the codes of its characters, the
  wider model gives the same results, for all tables that say of the code points from
  128 to 255 what the database says: U+0085 and U+00A0 are whitespace and none is a
  decimal digit. The excerpt above is such a pair of tables.
\<close>

lemma codigo_limite: "codigo c < 256"
proof -
  have "codigo c mod 256 = codigo c" by (simp add: codigo_def)
  then show ?thesis by (metis mod_less_divisor zero_less_numeral)
qed

lemma char_of_codigo: "char_of (codigo c) = c"
  by (simp add: codigo_def)

lemma latin1_isspace:
  assumes "\<And>ch. 128 \<le> ch \<Longrightarrow> ch < 256 \<Longrightarrow> esp ch = (ch = 133 \<or> ch = 160)"
  shows "uni_isspace esp (codigo c) = py_isspace c"
proof (cases "codigo c < 128")
  case True
  then show ?thesis by (auto simp: uni_isspace_def py_isspace_def)
next
  case False
  then have "esp (codigo c) = (codigo c = 133 \<or> codigo c = 160)"
    using assms [of "codigo c"] codigo_limite [of c] by simp
  then show ?thesis using False by (auto simp: uni_isspace_def py_isspace_def)
qed

lemma latin1_transformar:
  assumes "\<And>ch. 128 \<le> ch \<Longrightarrow> ch < 256 \<Longrightarrow> esp ch = (ch = 133 \<or> ch = 160)"
    and "\<And>ch. 128 \<le> ch \<Longrightarrow> ch < 256 \<Longrightarrow> dec ch = None"
  shows "transformar_u esp dec (map codigo s) = transformar s"
proof (induction s)
  case Nil
  then show ?case by simp
next
  case (Cons c cs)
  have sp: "uni_isspace esp (codigo c) = py_isspace c" using assms(1) by (rule latin1_isspace)
  have "uni_todecimal dec (codigo c) = None" if "\<not> codigo c < 127"
  proof (cases "codigo c < 128")
    case True
    then show ?thesis using that by (simp add: uni_todecimal_def)
  next
    case False
    then have "dec (codigo c) = None" using assms(2) [of "codigo c"] codigo_limite [of c] by simp
    then show ?thesis using False by (simp add: uni_todecimal_def)
  qed
  then show ?case using Cons sp by (simp add: char_of_codigo)
qed

lemma latin1_para_ascii:
  assumes "\<And>ch. 128 \<le> ch \<Longrightarrow> ch < 256 \<Longrightarrow> esp ch = (ch = 133 \<or> ch = 160)"
    and "\<And>ch. 128 \<le> ch \<Longrightarrow> ch < 256 \<Longrightarrow> dec ch = None"
  shows "para_ascii_u esp dec (map codigo s) = para_ascii s"
proof -
  have "map char_of (map codigo s) = s" by (simp add: char_of_codigo comp_def)
  then show ?thesis
    using latin1_transformar [OF assms]
    by (simp add: para_ascii_u_def para_ascii_def list_all_iff)
qed

lemma latin1_strip:
  assumes "\<And>ch. 128 \<le> ch \<Longrightarrow> ch < 256 \<Longrightarrow> esp ch = (ch = 133 \<or> ch = 160)"
  shows "strip_u esp (map codigo s) = map codigo (strip s)"
proof -
  have p: "uni_isspace esp \<circ> codigo = py_isspace"
    using latin1_isspace [OF assms] by (simp add: fun_eq_iff)
  show ?thesis
    by (simp add: strip_u_def strip_def dropWhile_map rev_map p)
qed

lemma latin1_inferir:
  assumes "\<And>ch. 128 \<le> ch \<Longrightarrow> ch < 256 \<Longrightarrow> esp ch = (ch = 133 \<or> ch = 160)"
    and "\<And>ch. 128 \<le> ch \<Longrightarrow> ch < 256 \<Longrightarrow> dec ch = None"
  shows "inferir_tipo_dado_u lim esp dec (map codigo s) = inferir_tipo_dado lim s"
  using latin1_para_ascii [OF assms]
  by (simp add: inferir_tipo_dado_u_def inferir_tipo_dado_def py_int_ok_u_def py_int_ok_def
      py_float_ok_u_def py_float_ok_def)

lemma exemplo_latin1:
  "inferir_tipo_dado_u lim esp_exemplo dec_exemplo (map codigo s) = inferir_tipo_dado lim s"
  "strip_u esp_exemplo (map codigo s) = map codigo (strip s)"
proof -
  have e: "esp_exemplo ch = (ch = 133 \<or> ch = 160)" if "128 \<le> ch" "ch < 256" for ch
    using that by (auto simp: esp_exemplo_def)
  have d: "dec_exemplo ch = None" if "128 \<le> ch" "ch < 256" for ch
    using that by (simp add: dec_exemplo_def)
  show "inferir_tipo_dado_u lim esp_exemplo dec_exemplo (map codigo s) = inferir_tipo_dado lim s"
    using e d by (rule latin1_inferir)
  show "strip_u esp_exemplo (map codigo s) = map codigo (strip s)"
    using e by (rule latin1_strip)
qed

text \<open>
  Examples beyond 255: between an ideographic space and an em space, two Arabic-Indic
  digits, an underscore and a fullwidth digit are an integer; a digit after the minus
  sign U+2212 is not; and \<^verbatim>\<open>"1_000"\<close> is an integer in this model too.
\<close>

lemmas unicode_defs = inferir_tipo_dado_u_def py_int_ok_u_def py_float_ok_u_def para_ascii_u_def
  uni_isspace_def uni_todecimal_def strip_u_def esp_exemplo_def dec_exemplo_def
  long_from_string_base_def sem_sinal_def c_isspace_def codigo_def is_digit_def excede_limite_def
  char_of_eq_iff

lemma exemplo_arabe:
  "inferir_tipo_dado_u lim esp_exemplo dec_exemplo
     (strip_u esp_exemplo [0x3000, 0x661, 0x662, 95, 0xFF13, 0x2003]) = ''int''"
  by (simp add: unicode_defs)

lemma exemplo_arabe_literal:
  "strip_u esp_exemplo [0x3000, 0x661, 0x662, 95, 0xFF13, 0x2003] = [0x661, 0x662, 95, 0xFF13] \<and>
   literal_inteiro_u esp_exemplo dec_exemplo [0x661, 0x662, 95, 0xFF13] \<and>
   numero_de_digitos_u esp_exemplo dec_exemplo [0x661, 0x662, 95, 0xFF13] = 3"
  by (simp add: literal_inteiro_u_def sem_sinal_u_def grupo_decimal_def digito_decimal_def
      numero_de_digitos_u_def strip_u_def uni_isspace_def esp_exemplo_def dec_exemplo_def)

lemma exemplo_menos_unicode:
  "inferir_tipo_dado_u lim esp_exemplo dec_exemplo (strip_u esp_exemplo [0x2212, 49]) \<noteq> ''int''"
  by (simp add: unicode_defs com_sublinhados_def float_from_string_inner_def ascii_strtod_def
      strtod_def expoente_def parse_inf_or_nan_def case_insensitive_match_def e_zero_def
      MAX_DIGITS_def py_tolower_def)

lemma exemplo_sublinhado_u:
  "inferir_tipo_dado_u lim esp_exemplo dec_exemplo (strip_u esp_exemplo [49, 95, 48, 48, 48]) = ''int''"
  by (simp add: unicode_defs)

text \<open>
  Claim C7, amended. A string is classified as an integer exactly when, after
  trimming, it is an optional \<^verbatim>\<open>+\<close> or \<^verbatim>\<open>-\<close> followed by one or more groups of
  decimal digits (the ASCII digits and every other decimal digit of Unicode), none of
  them empty, with a single underscore between two groups, and nothing else (no
  decimal point, no exponent, no blank), and the number of its digits is within the
  limit of the interpreter for integer strings where that limit is on. The statement is
  about strings of arbitrary code points and holds whatever the two tables of the
  database are.
\<close>

theorem inteiro_literal_python:
  "(inferir_tipo_dado_u lim esp dec (strip_u esp v) = ''int'') =
     (literal_inteiro_u esp dec (strip_u esp v) \<and>
      \<not> excede_limite lim (numero_de_digitos_u esp dec (strip_u esp v)))"
  by (rule inteiro_unicode)

end
